theory Spec2Isabelle
  imports Complex_Main
begin

section \<open>JavaScript strings\<close>

text \<open>
  A JavaScript string is a sequence of UTF-16 code units; \<open>s.length\<close> counts code units
  and \<open>s[i]\<close> reads one.  A code unit is modelled by its numeric value, so that the Chinese
  characters of the failure marker can be written down.  \<open>js\<close> turns an ASCII literal into
  such a string.
\<close>

type_synonym jsstring = "nat list"

definition js :: "string \<Rightarrow> jsstring" where
  "js s = map of_char s"

definition startsWith :: "jsstring \<Rightarrow> jsstring \<Rightarrow> bool" where
  "startsWith s p = (take (length p) s = p)"

definition endsWith :: "jsstring \<Rightarrow> jsstring \<Rightarrow> bool" where
  "endsWith s p = (length p \<le> length s \<and> drop (length s - length p) s = p)"

text \<open>\<open>s.includes(p)\<close>: \<open>p\<close> occurs at some position of \<open>s\<close>.\<close>

fun includesStr :: "jsstring \<Rightarrow> jsstring \<Rightarrow> bool" where
  "includesStr [] p = (p = [])"
| "includesStr (c # cs) p = (startsWith (c # cs) p \<or> includesStr cs p)"

text \<open>
  The white space of \<open>String.prototype.trim\<close> and of the regular expression class
  \<open>\s\<close>: tab, line feed, vertical tab, form feed, carriage return, space, no-break space,
  U+1680, U+2000 to U+200A, U+2028, U+2029, U+202F, U+205F, U+3000 and U+FEFF.
\<close>

definition isSpace :: "nat \<Rightarrow> bool" where
  "isSpace c = (c \<in> {9, 10, 11, 12, 13, 32, 160, 5760, 8232, 8233, 8239, 8287, 12288, 65279}
                \<or> (8192 \<le> c \<and> c \<le> 8202))"

definition trim :: "jsstring \<Rightarrow> jsstring" where
  "trim s = rev (dropWhile isSpace (rev (dropWhile isSpace s)))"

section \<open>The batch planner of \<open>translateTextByParagraph\<close>\<close>

text \<open>
  \<open>aiClient.ts\<close>, lines 282 to 317.  The configuration numbers are optional JavaScript
  numbers written by \<open>parseInt\<close>; \<open>config.x || d\<close> takes the default \<open>d\<close> when the field
  is absent or zero.
\<close>

record AiConfig =
  concurrency :: "int option"
  maxTextLengthPerRequest :: "int option"
  maxParagraphsPerRequest :: "int option"

definition orDefault :: "int option \<Rightarrow> int \<Rightarrow> int" where
  "orDefault x d = (case x of None \<Rightarrow> d | Some v \<Rightarrow> if v = 0 then d else v)"

definition maxBatchSize :: "AiConfig \<Rightarrow> int" where
  "maxBatchSize config = orDefault (maxParagraphsPerRequest config) 1"

definition maxTextLen :: "AiConfig \<Rightarrow> int" where
  "maxTextLen config = orDefault (maxTextLengthPerRequest config) 1500"

definition concurrencyLimit :: "AiConfig \<Rightarrow> int" where
  "concurrencyLimit config = orDefault (concurrency config) 5"

record Batch =
  indices :: "nat list"
  texts :: "jsstring list"

definition emptyBatch :: Batch where
  "emptyBatch = \<lparr>indices = [], texts = []\<rparr>"

text \<open>
  The \<open>for\<close> loop over \<open>i\<close>, with its three variables \<open>batches\<close>, \<open>currentBatch\<close> and
  \<open>currentBatchLen\<close> as accumulators.
\<close>

function planLoop ::
  "int \<Rightarrow> int \<Rightarrow> jsstring list \<Rightarrow> nat \<Rightarrow> Batch list \<Rightarrow> Batch \<Rightarrow> nat \<Rightarrow> Batch list \<times> Batch"
where
  "planLoop mbs mtl paragraphs i batches currentBatch currentBatchLen =
     (if i < length paragraphs then
        (let p = paragraphs ! i; len = length p in
         if length (indices currentBatch) > 0 \<and>
            (int (length (indices currentBatch)) \<ge> mbs \<or> int (currentBatchLen + len) > mtl)
         then planLoop mbs mtl paragraphs (Suc i) (batches @ [currentBatch])
                \<lparr>indices = [i], texts = [p]\<rparr> len
         else planLoop mbs mtl paragraphs (Suc i) batches
                \<lparr>indices = indices currentBatch @ [i], texts = texts currentBatch @ [p]\<rparr>
                (currentBatchLen + len))
      else (batches, currentBatch))"
  by pat_completeness auto
termination
  by (relation "measure (\<lambda>(mbs, mtl, paragraphs, i, batches, currentBatch, currentBatchLen).
        length paragraphs - i)") auto

declare planLoop.simps [simp del]

definition createBatches :: "int \<Rightarrow> int \<Rightarrow> jsstring list \<Rightarrow> Batch list" where
  "createBatches mbs mtl paragraphs =
     (case planLoop mbs mtl paragraphs 0 [] emptyBatch 0 of
        (batches, currentBatch) \<Rightarrow>
          if length (indices currentBatch) > 0 then batches @ [currentBatch] else batches)"

text \<open>
  What the planner promises of one batch: at most \<open>mbs\<close> fragments, and at most \<open>mtl\<close>
  characters in all unless the batch is a single fragment; its texts are the paragraphs at
  its indices.
\<close>

definition batchChars :: "Batch \<Rightarrow> nat" where
  "batchChars b = sum_list (map length (texts b))"

definition batchWithinLimits :: "int \<Rightarrow> int \<Rightarrow> Batch \<Rightarrow> bool" where
  "batchWithinLimits mbs mtl b =
     (int (length (indices b)) \<le> mbs \<and>
      (int (batchChars b) \<le> mtl \<or> length (indices b) = 1))"

definition plannedFrom :: "jsstring list \<Rightarrow> int \<Rightarrow> int \<Rightarrow> Batch \<Rightarrow> bool" where
  "plannedFrom paragraphs mbs mtl b =
     (batchWithinLimits mbs mtl b \<and> texts b = map ((!) paragraphs) (indices b))"

section \<open>The completion client\<close>

text \<open>
  A thrown JavaScript error carries a \<open>name\<close> and a \<open>message\<close>; \<open>processBatch\<close> reads
  both to tell a cancellation from a failure.
\<close>

datatype error = Error (name: jsstring) (message: jsstring)

text \<open>What \<open>fetch\<close> rejects with when its signal is aborted.\<close>

definition AbortError :: error where
  "AbortError = Error (js ''AbortError'') (js ''The user aborted a request.'')"

text \<open>\<open>results[i].translated = ...\<close> where \<open>results[i]\<close> is \<open>undefined\<close>.\<close>

definition TypeError :: error where
  "TypeError = Error (js ''TypeError'') (js ''Cannot set properties of undefined'')"

datatype lang = Zh | En

text \<open>
  The two requests this module sends to \<open>/chat/completions\<close>: the one \<open>translateText\<close>
  builds for a single text (its prompt does not depend on the target language) and the
  one \<open>translateBatch\<close> builds for a JSON array of texts.
\<close>

datatype request = TextRequest jsstring | ArrayRequest "jsstring list" lang

record TranslationResult =
  original :: jsstring
  translated :: jsstring

text \<open>
  The state of one run: the result container, the requests that reached the network so
  far, a clock that counts the suspension points passed (network calls and backoff waits),
  and the calls of \<open>onParagraphTranslated\<close> made so far.
\<close>

record run =
  results :: "TranslationResult list"
  sent :: "request list"
  clock :: nat
  notified :: "(nat \<times> jsstring) list"

text \<open>What \<open>JSON.parse\<close> returns, and \<open>String(v)\<close> of such a value.  A number is kept as
  its decimal rendering.\<close>

datatype json =
    JNull | JBool bool | JNumber jsstring | JString jsstring
  | JArray "json list" | JObject "(jsstring \<times> json) list"

fun joinComma :: "jsstring list \<Rightarrow> jsstring" where
  "joinComma [] = []"
| "joinComma [x] = x"
| "joinComma (x # y # ys) = x @ js '','' @ joinComma (y # ys)"

fun String_js :: "json \<Rightarrow> jsstring" where
  "String_js JNull = js ''null''"
| "String_js (JBool b) = (if b then js ''true'' else js ''false'')"
| "String_js (JNumber r) = r"
| "String_js (JString s) = s"
| "String_js (JArray xs) = joinComma (map (\<lambda>x. if x = JNull then [] else String_js x) xs)"
| "String_js (JObject kvs) = js ''[object Object]''"

text \<open>
  The surroundings of a run, which the code does not control: the answer of the service to
  the \<open>k\<close>-th request that reaches it (an error stands for a transport failure, a bad
  status or a malformed body, as \<open>chatCompletion\<close> throws them), the state of the
  cancellation signal at every clock value (a run without a signal has one that is never
  aborted), and the library function \<open>JSON.parse\<close> (\<open>None\<close> is its \<open>SyntaxError\<close>).
\<close>

record world =
  server :: "nat \<Rightarrow> request \<Rightarrow> error + jsstring"
  aborted :: "nat \<Rightarrow> bool"
  JSON_parse :: "jsstring \<Rightarrow> json option"

text \<open>\<open>fetch\<close> with an aborted signal rejects at once and sends nothing.\<close>

definition chatCompletion :: "world \<Rightarrow> request \<Rightarrow> run \<Rightarrow> (error + jsstring) \<times> run" where
  "chatCompletion w req s =
     (if aborted w (clock s) then (Inl AbortError, s)
      else (server w (length (sent s)) req,
            s\<lparr>sent := sent s @ [req], clock := Suc (clock s)\<rparr>))"

definition translateText :: "world \<Rightarrow> jsstring \<Rightarrow> lang \<Rightarrow> run \<Rightarrow> (error + jsstring) \<times> run" where
  "translateText w t targetLang s = chatCompletion w (TextRequest t) s"

section \<open>\<open>translateBatch\<close>\<close>

text \<open>The clean-up of the raw answer, \<open>aiClient.ts\<close> lines 233 to 237.\<close>

definition cleanResponse :: "jsstring \<Rightarrow> jsstring" where
  "cleanResponse responseRaw =
     (let c0 = trim responseRaw;
          c1 = (if startsWith c0 (js ''```json'') then drop 7 c0 else c0);
          c2 = (if startsWith c1 (js ''```'') then drop 3 c1 else c1);
          c3 = (if endsWith c2 (js ''```'') then take (length c2 - 3) c2 else c2)
      in trim c3)"

text \<open>The fallback loop \<open>for (const t of texts) results.push(await translateText(...))\<close>.\<close>

fun translateSequential ::
  "world \<Rightarrow> jsstring list \<Rightarrow> lang \<Rightarrow> run \<Rightarrow> (error + jsstring list) \<times> run"
where
  "translateSequential w [] targetLang s = (Inr [], s)"
| "translateSequential w (t # ts) targetLang s =
     (case translateText w t targetLang s of
        (Inl e, s1) \<Rightarrow> (Inl e, s1)
      | (Inr r, s1) \<Rightarrow>
          (case translateSequential w ts targetLang s1 of
             (Inl e, s2) \<Rightarrow> (Inl e, s2)
           | (Inr rs, s2) \<Rightarrow> (Inr (r # rs), s2)))"

definition translateBatch ::
  "world \<Rightarrow> jsstring list \<Rightarrow> lang \<Rightarrow> run \<Rightarrow> (error + jsstring list) \<times> run"
where
  "translateBatch w txts targetLang s =
     (if length txts = 0 then (Inr [], s)
      else if length txts = 1 then
        (case translateText w (txts ! 0) targetLang s of
           (Inl e, s1) \<Rightarrow> (Inl e, s1)
         | (Inr r, s1) \<Rightarrow> (Inr [r], s1))
      else
        (case chatCompletion w (ArrayRequest txts targetLang) s of
           (Inl e, s1) \<Rightarrow> (Inl e, s1)
         | (Inr responseRaw, s1) \<Rightarrow>
             (case JSON_parse w (cleanResponse responseRaw) of
                Some (JArray parsed) \<Rightarrow>
                  if length parsed \<noteq> length txts
                  then translateSequential w txts targetLang s1
                  else (Inr (map String_js parsed), s1)
              | _ \<Rightarrow> translateSequential w txts targetLang s1)))"

text \<open>
  For the contract of \<open>translateBatch\<close>, in the words of its specification: the state after
  some requests have gone out and been answered; the answer to call number \<open>i\<close> of "one
  single-fragment completion call per text, sequentially" when the first of these calls
  is request number \<open>n\<close> of the run; and the parsed response when it is "an array of
  exactly the input length".
\<close>

definition afterRequests :: "run \<Rightarrow> request list \<Rightarrow> run" where
  "afterRequests s reqs = s\<lparr>sent := sent s @ reqs, clock := clock s + length reqs\<rparr>"

definition fallbackAnswer :: "world \<Rightarrow> nat \<Rightarrow> jsstring list \<Rightarrow> nat \<Rightarrow> error + jsstring" where
  "fallbackAnswer w n txts i = server w (n + i) (TextRequest (txts ! i))"

definition validArray :: "world \<Rightarrow> jsstring \<Rightarrow> nat \<Rightarrow> json list option" where
  "validArray w responseRaw n =
     (case JSON_parse w (cleanResponse responseRaw) of
        Some (JArray parsed) \<Rightarrow> if length parsed = n then Some parsed else None
      | _ \<Rightarrow> None)"

section \<open>\<open>processBatch\<close>: validation, retry and giving up\<close>

text \<open>
  The failure marker \<open>/(?:\[\s*M\s*\]|M|translation\s*failed)/i\<close>, where \<open>M\<close> is the four
  code units U+7FFB U+8BD1 U+5931 U+8D25 of the Chinese phrase.  Without the \<open>u\<close> flag,
  ignoring case compares the upper-case forms of single code units and never lets a code
  unit above 127 match an ASCII letter, so only the ASCII letters need folding here.  After
  a greedy \<open>\s*\<close> the pattern goes on with a character that is no white space, so
  dropping all the white space is what the match does.
\<close>

definition failedPhrase :: jsstring where
  "failedPhrase = [32763, 35793, 22833, 36133]"

definition canonicalize :: "nat \<Rightarrow> nat" where
  "canonicalize c = (if 97 \<le> c \<and> c \<le> 122 then c - 32 else c)"

definition startsWithIgnoreCase :: "jsstring \<Rightarrow> jsstring \<Rightarrow> bool" where
  "startsWithIgnoreCase s p = (map canonicalize (take (length p) s) = map canonicalize p)"

definition failureMarkerAt :: "jsstring \<Rightarrow> bool" where
  "failureMarkerAt s =
     ((startsWith s (js ''['') \<and>
       (let r = dropWhile isSpace (drop 1 s) in
        startsWith r failedPhrase \<and> startsWith (dropWhile isSpace (drop 4 r)) (js '']'')))
      \<or> startsWith s failedPhrase
      \<or> (startsWithIgnoreCase s (js ''translation'') \<and>
          startsWithIgnoreCase (dropWhile isSpace (drop 11 s)) (js ''failed'')))"

text \<open>\<open>regex.test(t)\<close>: the pattern matches at some position of \<open>t\<close>.\<close>

fun failureMarker :: "jsstring \<Rightarrow> bool" where
  "failureMarker [] = failureMarkerAt []"
| "failureMarker (c # cs) = (failureMarkerAt (c # cs) \<or> failureMarker cs)"

text \<open>The test of the \<open>catch\<close> block for a cancellation.\<close>

definition isAbort :: "error \<Rightarrow> bool" where
  "isAbort err = (name err = js ''AbortError'' \<or> includesStr (message err) (js ''Abort''))"

definition maxRetries :: nat where
  "maxRetries = 20"

text \<open>
  \<open>onParagraphTranslated(originalIndex, trans)\<close>, called only while the signal is not
  aborted.
\<close>

definition notify :: "world \<Rightarrow> nat \<Rightarrow> jsstring \<Rightarrow> run \<Rightarrow> run" where
  "notify w originalIndex trans' s =
     (if \<not> aborted w (clock s) then s\<lparr>notified := notified s @ [(originalIndex, trans')]\<rparr>
      else s)"

definition setTranslated :: "nat \<Rightarrow> jsstring \<Rightarrow> run \<Rightarrow> run" where
  "setTranslated originalIndex trans' s =
     s\<lparr>results := (results s)[originalIndex := (results s ! originalIndex)\<lparr>translated := trans'\<rparr>]\<rparr>"

text \<open>
  The \<open>forEach\<close> that writes a batch back (lines 349 to 355), over the pairs of
  \<open>originalIndex\<close> and \<open>translatedTexts[batchIndex]\<close>.  An index outside the container
  makes \<open>results[originalIndex]\<close> undefined and the assignment throw, after the earlier
  writes.  The result is the error thrown, if any, and the state reached.
\<close>

fun writeBack :: "world \<Rightarrow> (nat \<times> jsstring) list \<Rightarrow> run \<Rightarrow> error option \<times> run" where
  "writeBack w [] s = (None, s)"
| "writeBack w ((originalIndex, trans') # rest) s =
     (if originalIndex < length (results s)
      then writeBack w rest (notify w originalIndex trans' (setTranslated originalIndex trans' s))
      else (Some TypeError, s))"

text \<open>The \<open>forEach\<close> of the give-up branch (lines 373 to 375).\<close>

fun markEmpty :: "nat list \<Rightarrow> run \<Rightarrow> error option \<times> run" where
  "markEmpty [] s = (None, s)"
| "markEmpty (originalIndex # rest) s =
     (if originalIndex < length (results s)
      then markEmpty rest (setTranslated originalIndex [] s)
      else (Some TypeError, s))"

text \<open>
  The \<open>try\<close> block of one attempt (lines 331 to 357): the call, the scan of every returned
  text for the failure marker, the write-back.  A batch of the planner has as many texts
  as indices and \<open>translateBatch\<close> returns as many texts as it is given, so that
  \<open>translatedTexts[batchIndex]\<close> is there for every index of the batch.
\<close>

definition tryBlock :: "world \<Rightarrow> lang \<Rightarrow> Batch \<Rightarrow> run \<Rightarrow> error option \<times> run" where
  "tryBlock w targetLang batch s =
     (case translateBatch w (texts batch) targetLang s of
        (Inl e, s1) \<Rightarrow> (Some e, s1)
      | (Inr translatedTexts, s1) \<Rightarrow>
          (case find failureMarker translatedTexts of
             Some t \<Rightarrow> (Some (Error (js ''Error'') (js ''Content verification failed: '' @ t)), s1)
           | None \<Rightarrow>
               writeBack w
                 (map (\<lambda>batchIndex. (indices batch ! batchIndex, translatedTexts ! batchIndex))
                    [0 ..< length (indices batch)]) s1))"

text \<open>The backoff wait is one more suspension point; its length in time is not modelled.\<close>

definition backoff :: "run \<Rightarrow> run" where
  "backoff s = s\<lparr>clock := Suc (clock s)\<rparr>"

text \<open>The loop \<open>while (!success)\<close> with its \<open>catch\<close> block (lines 327 to 383).\<close>

function processLoop :: "world \<Rightarrow> lang \<Rightarrow> Batch \<Rightarrow> nat \<Rightarrow> run \<Rightarrow> error option \<times> run" where
  "processLoop w targetLang batch retryCount s =
     (if aborted w (clock s) then (Some (Error (js ''Error'') (js ''Aborted'')), s)
      else
        (case tryBlock w targetLang batch s of
           (None, s1) \<Rightarrow> (None, s1)
         | (Some err, s1) \<Rightarrow>
             if isAbort err then (Some err, s1)
             else if Suc retryCount > maxRetries then markEmpty (indices batch) s1
             else processLoop w targetLang batch (Suc retryCount) (backoff s1)))"
  by pat_completeness auto
termination
  by (relation "measure (\<lambda>(w, targetLang, batch, retryCount, s). Suc maxRetries - retryCount)")
     auto

declare processLoop.simps [simp del]

definition processBatch :: "world \<Rightarrow> lang \<Rightarrow> Batch \<Rightarrow> run \<Rightarrow> error option \<times> run" where
  "processBatch w targetLang batch s =
     (if aborted w (clock s) then (None, s) else processLoop w targetLang batch 0 s)"

text \<open>
  The state in which attempt number \<open>k\<close> of a batch starts (counting from 0) when all the
  attempts before it failed and were retried, and what it means for an attempt to fail
  with an error that the \<open>catch\<close> block does not rethrow as a cancellation.
\<close>

fun attemptState :: "world \<Rightarrow> lang \<Rightarrow> Batch \<Rightarrow> run \<Rightarrow> nat \<Rightarrow> run" where
  "attemptState w lg batch s 0 = s"
| "attemptState w lg batch s (Suc k) =
     backoff (snd (tryBlock w lg batch (attemptState w lg batch s k)))"

definition attemptFails :: "world \<Rightarrow> lang \<Rightarrow> Batch \<Rightarrow> run \<Rightarrow> bool" where
  "attemptFails w lg batch s =
     (case fst (tryBlock w lg batch s) of None \<Rightarrow> False | Some err \<Rightarrow> \<not> isAbort err)"

section \<open>\<open>translateTextByParagraph\<close>\<close>

definition detectTargetLang :: "jsstring list \<Rightarrow> lang option \<Rightarrow> lang" where
  "detectTargetLang paragraphs forcedTargetLang =
     (case forcedTargetLang of
        Some l \<Rightarrow> l
      | None \<Rightarrow>
          (let sampleText = (case paragraphs of [] \<Rightarrow> [] | p # ps \<Rightarrow> p) in
           if \<exists>c \<in> set sampleText. 19968 \<le> c \<and> c \<le> 40869 then En else Zh))"

definition initialRun :: "jsstring list \<Rightarrow> run" where
  "initialRun paragraphs =
     \<lparr>results = map (\<lambda>p. \<lparr>original = p, translated = []\<rparr>) paragraphs,
      sent = [], clock = 0, notified = []\<rparr>"

text \<open>
  A call of \<open>translateTextByParagraph\<close> runs on one thread: the main function and the batch
  tasks it has started take turns, and a task gives up its turn only where it awaits the
  answer to a request or the end of a backoff wait.  Up to \<open>concurrency\<close> tasks are in flight
  at once, their requests are sent before earlier ones are answered, and the answers come
  back in any order.  The run is therefore modelled one turn at a time.

  A task that is suspended is the batch, its retry count and what it awaits: the answer to
  request number \<open>k\<close> of the run, sent by the singleton path of \<open>translateBatch\<close>, by its
  bulk path, or by its fallback loop (which has collected some results, has the text of
  the request in flight and has more texts to go), or the end of the backoff wait.
\<close>

datatype awaiting =
    AwaitSingle nat
  | AwaitBulk nat
  | AwaitFallback nat "jsstring list" jsstring "jsstring list"
  | AwaitBackoff

datatype task = Task Batch nat awaiting

text \<open>How a turn of a task ends: \<open>processBatch\<close> has returned, it has thrown, or it is
  suspended again.\<close>

datatype ending = Fulfilled | RejectedBy error | Continues task

text \<open>
  \<open>fetch\<close> inside \<open>chatCompletion\<close>: with the signal aborted it rejects at once and sends
  nothing (\<open>None\<close>); otherwise the request goes out and gets the next request number.
\<close>

definition sendRequest :: "world \<Rightarrow> request \<Rightarrow> run \<Rightarrow> nat option \<times> run" where
  "sendRequest w req s =
     (if aborted w (clock s) then (None, s)
      else (Some (length (sent s)), s\<lparr>sent := sent s @ [req]\<rparr>))"

text \<open>The \<open>catch\<close> block of \<open>processBatch\<close> (lines 358 to 382).\<close>

definition catchBlock :: "Batch \<Rightarrow> nat \<Rightarrow> error \<Rightarrow> run \<Rightarrow> ending \<times> run" where
  "catchBlock batch retryCount err s =
     (if isAbort err then (RejectedBy err, s)
      else if Suc retryCount > maxRetries then
        (case markEmpty (indices batch) s of
           (None, s1) \<Rightarrow> (Fulfilled, s1)
         | (Some e, s1) \<Rightarrow> (RejectedBy e, s1))
      else (Continues (Task batch (Suc retryCount) AwaitBackoff), s))"

text \<open>
  The rest of the \<open>try\<close> block once \<open>translateBatch\<close> has returned (lines 338 to 357): the
  scan for the failure marker and the write-back.
\<close>

definition validateAndWrite :: "world \<Rightarrow> Batch \<Rightarrow> nat \<Rightarrow> jsstring list \<Rightarrow> run \<Rightarrow> ending \<times> run" where
  "validateAndWrite w batch retryCount translatedTexts s =
     (case find failureMarker translatedTexts of
        Some t \<Rightarrow>
          catchBlock batch retryCount
            (Error (js ''Error'') (js ''Content verification failed: '' @ t)) s
      | None \<Rightarrow>
          (case writeBack w
                  (map (\<lambda>batchIndex. (indices batch ! batchIndex, translatedTexts ! batchIndex))
                     [0 ..< length (indices batch)]) s of
             (None, s1) \<Rightarrow> (Fulfilled, s1)
           | (Some e, s1) \<Rightarrow> catchBlock batch retryCount e s1))"

text \<open>
  The fallback loop of \<open>translateBatch\<close> (lines 250 to 254) with \<open>collected\<close> results and
  the texts \<open>todo\<close> still to translate: it returns, or sends the request for the next text.
\<close>

definition nextFallback ::
  "world \<Rightarrow> Batch \<Rightarrow> nat \<Rightarrow> jsstring list \<Rightarrow> jsstring list \<Rightarrow> run \<Rightarrow> ending \<times> run"
where
  "nextFallback w batch retryCount collected todo s =
     (case todo of
        [] \<Rightarrow> validateAndWrite w batch retryCount collected s
      | t # rest \<Rightarrow>
          (case sendRequest w (TextRequest t) s of
             (None, s1) \<Rightarrow> catchBlock batch retryCount AbortError s1
           | (Some k, s1) \<Rightarrow>
               (Continues (Task batch retryCount (AwaitFallback k collected t rest)), s1)))"

text \<open>The call of \<open>translateBatch\<close> up to its first request (lines 204 to 230).\<close>

definition beginTranslateBatch :: "world \<Rightarrow> lang \<Rightarrow> Batch \<Rightarrow> nat \<Rightarrow> run \<Rightarrow> ending \<times> run" where
  "beginTranslateBatch w targetLang batch retryCount s =
     (if length (texts batch) = 0 then validateAndWrite w batch retryCount [] s
      else if length (texts batch) = 1 then
        (case sendRequest w (TextRequest (texts batch ! 0)) s of
           (None, s1) \<Rightarrow> catchBlock batch retryCount AbortError s1
         | (Some k, s1) \<Rightarrow> (Continues (Task batch retryCount (AwaitSingle k)), s1))
      else
        (case sendRequest w (ArrayRequest (texts batch) targetLang) s of
           (None, s1) \<Rightarrow> catchBlock batch retryCount AbortError s1
         | (Some k, s1) \<Rightarrow> (Continues (Task batch retryCount (AwaitBulk k)), s1)))"

text \<open>The head of the loop \<open>while (!success)\<close> (line 328) and the entry of \<open>processBatch\<close>
  (line 321).\<close>

definition loopHead :: "world \<Rightarrow> lang \<Rightarrow> Batch \<Rightarrow> nat \<Rightarrow> run \<Rightarrow> ending \<times> run" where
  "loopHead w targetLang batch retryCount s =
     (if aborted w (clock s) then (RejectedBy (Error (js ''Error'') (js ''Aborted'')), s)
      else beginTranslateBatch w targetLang batch retryCount s)"

definition enterProcessBatch :: "world \<Rightarrow> lang \<Rightarrow> Batch \<Rightarrow> run \<Rightarrow> ending \<times> run" where
  "enterProcessBatch w targetLang batch s =
     (if aborted w (clock s) then (Fulfilled, s) else loopHead w targetLang batch 0 s)"

text \<open>
  A suspended task goes on: what it awaited has happened.  Time has passed, so the clock
  advances and the signal may have changed.  The answer to request number \<open>k\<close> is the
  service's.
\<close>

definition resume :: "world \<Rightarrow> lang \<Rightarrow> task \<Rightarrow> run \<Rightarrow> ending \<times> run" where
  "resume w targetLang tk s0 =
     (case tk of Task batch retryCount aw \<Rightarrow>
        (let s = s0\<lparr>clock := Suc (clock s0)\<rparr> in
         case aw of
           AwaitBackoff \<Rightarrow> loopHead w targetLang batch retryCount s
         | AwaitSingle k \<Rightarrow>
             (case server w k (TextRequest (texts batch ! 0)) of
                Inl e \<Rightarrow> catchBlock batch retryCount e s
              | Inr r \<Rightarrow> validateAndWrite w batch retryCount [r] s)
         | AwaitBulk k \<Rightarrow>
             (case server w k (ArrayRequest (texts batch) targetLang) of
                Inl e \<Rightarrow> catchBlock batch retryCount e s
              | Inr responseRaw \<Rightarrow>
                  (case JSON_parse w (cleanResponse responseRaw) of
                     Some (JArray parsed) \<Rightarrow>
                       if length parsed \<noteq> length (texts batch)
                       then nextFallback w batch retryCount [] (texts batch) s
                       else validateAndWrite w batch retryCount (map String_js parsed) s
                   | _ \<Rightarrow> nextFallback w batch retryCount [] (texts batch) s))
         | AwaitFallback k collected t rest \<Rightarrow>
             (case server w k (TextRequest t) of
                Inl e \<Rightarrow> catchBlock batch retryCount e s
              | Inr r \<Rightarrow> nextFallback w batch retryCount (collected @ [r]) rest s)))"

text \<open>
  A task on its own: from the first turn of a task, its later turns taken one after the
  other with no turn of another task in between, up to some point.  \<open>thrownOrDone\<close> reads
  the result of \<open>processBatch\<close> above as the end of a task.
\<close>

definition thrownOrDone :: "error option \<times> run \<Rightarrow> ending \<times> run" where
  "thrownOrDone r = (case r of (None, s) \<Rightarrow> (Fulfilled, s) | (Some e, s) \<Rightarrow> (RejectedBy e, s))"

inductive alone :: "world \<Rightarrow> lang \<Rightarrow> ending \<times> run \<Rightarrow> ending \<times> run \<Rightarrow> bool"
  for w :: world and lg :: lang
where
  here: "alone w lg c c"
| turn: "alone w lg (resume w lg tk s) c \<Longrightarrow> alone w lg (Continues tk, s) c"

text \<open>
  The main function (lines 386 to 409).  It is at the head of the \<open>for\<close> loop, at the inner
  \<open>while\<close> loop, at \<open>Promise.all\<close>, or it has returned or thrown.  A promise of
  \<open>activePromises\<close> is unsettled, with its suspended task, or rejected; a fulfilled one has
  removed itself.
\<close>

datatype promise = Unsettled task | RejectedWith error

datatype stage = ForHead | WhileWindow | AwaitAll | HasReturned | HasThrown error

record execution =
  shared :: run
  waitingBatches :: "Batch list"
  activeTasks :: "(nat \<times> promise) list"
  nextPromise :: nat
  stage :: stage

fun firstRejected :: "(nat \<times> promise) list \<Rightarrow> error option" where
  "firstRejected [] = None"
| "firstRejected ((p, RejectedWith e) # ps) = Some e"
| "firstRejected ((p, Unsettled tk) # ps) = firstRejected ps"

text \<open>The promise \<open>p\<close> of a task after a turn of the task, and the promise of a new task
  after its first turn.\<close>

definition settle :: "nat \<Rightarrow> ending \<Rightarrow> (nat \<times> promise) list \<Rightarrow> (nat \<times> promise) list" where
  "settle p e ps =
     (case e of
        Fulfilled \<Rightarrow> filter (\<lambda>q. fst q \<noteq> p) ps
      | RejectedBy err \<Rightarrow> map (\<lambda>q. if fst q = p then (p, RejectedWith err) else q) ps
      | Continues tk \<Rightarrow> map (\<lambda>q. if fst q = p then (p, Unsettled tk) else q) ps)"

definition pushPromise :: "nat \<Rightarrow> ending \<Rightarrow> (nat \<times> promise) list \<Rightarrow> (nat \<times> promise) list" where
  "pushPromise p e ps =
     (case e of
        Fulfilled \<Rightarrow> ps
      | RejectedBy err \<Rightarrow> ps @ [(p, RejectedWith err)]
      | Continues tk \<Rightarrow> ps @ [(p, Unsettled tk)])"

text \<open>
  One turn of the main function.  At the \<open>while\<close> loop with the window full it waits for
  \<open>Promise.race\<close>, which rejects when a promise of the array is rejected; with room in the
  window it calls \<open>processBatch\<close>, which runs up to its first request, and pushes the
  promise.  At \<open>Promise.all\<close> it throws when a promise is rejected and returns when none is
  left.  Where it has to wait, and once it has returned or thrown, a turn changes nothing.
\<close>

definition mainTurn :: "world \<Rightarrow> int \<Rightarrow> lang \<Rightarrow> execution \<Rightarrow> execution" where
  "mainTurn w limit targetLang x =
     (case stage x of
        ForHead \<Rightarrow>
          (case waitingBatches x of
             [] \<Rightarrow> x\<lparr>stage := AwaitAll\<rparr>
           | batch # rest \<Rightarrow>
               if aborted w (clock (shared x)) then x\<lparr>stage := AwaitAll\<rparr>
               else x\<lparr>stage := WhileWindow\<rparr>)
      | WhileWindow \<Rightarrow>
          if int (length (activeTasks x)) \<ge> limit then
            (case firstRejected (activeTasks x) of
               Some e \<Rightarrow> x\<lparr>stage := HasThrown e\<rparr>
             | None \<Rightarrow> x)
          else
            (case waitingBatches x of
               [] \<Rightarrow> x
             | batch # rest \<Rightarrow>
                 (case enterProcessBatch w targetLang batch (shared x) of
                    (e, s1) \<Rightarrow>
                      x\<lparr>shared := s1, waitingBatches := rest,
                        activeTasks := pushPromise (nextPromise x) e (activeTasks x),
                        nextPromise := Suc (nextPromise x), stage := ForHead\<rparr>))
      | AwaitAll \<Rightarrow>
          (case firstRejected (activeTasks x) of
             Some e \<Rightarrow> x\<lparr>stage := HasThrown e\<rparr>
           | None \<Rightarrow> if activeTasks x = [] then x\<lparr>stage := HasReturned\<rparr> else x)
      | HasReturned \<Rightarrow> x
      | HasThrown e \<Rightarrow> x)"

text \<open>One turn of the task behind promise \<open>p\<close>; nothing happens if there is no such
  suspended task.\<close>

definition taskTurn :: "world \<Rightarrow> lang \<Rightarrow> nat \<Rightarrow> execution \<Rightarrow> execution" where
  "taskTurn w targetLang p x =
     (case map_of (activeTasks x) p of
        Some (Unsettled tk) \<Rightarrow>
          (case resume w targetLang tk (shared x) of
             (e, s1) \<Rightarrow> x\<lparr>shared := s1, activeTasks := settle p e (activeTasks x)\<rparr>)
      | _ \<Rightarrow> x)"

text \<open>
  What happens next is not the code's choice: the main function gets its turn, or what
  the task behind promise \<open>p\<close> awaits happens.
\<close>

datatype event = Main | Resume nat

definition react :: "world \<Rightarrow> int \<Rightarrow> lang \<Rightarrow> execution \<Rightarrow> event \<Rightarrow> execution" where
  "react w limit targetLang x ev =
     (case ev of Main \<Rightarrow> mainTurn w limit targetLang x | Resume p \<Rightarrow> taskTurn w targetLang p x)"

definition startExecution :: "AiConfig \<Rightarrow> jsstring list \<Rightarrow> execution" where
  "startExecution config paragraphs =
     \<lparr>shared = initialRun paragraphs,
      waitingBatches = createBatches (maxBatchSize config) (maxTextLen config) paragraphs,
      activeTasks = [], nextPromise = 0, stage = ForHead\<rparr>"

text \<open>What the caller has got: the container returned, the error thrown, or nothing yet.\<close>

definition settled :: "execution \<Rightarrow> (error + TranslationResult list) option" where
  "settled x =
     (case stage x of
        HasReturned \<Rightarrow> Some (Inr (results (shared x)))
      | HasThrown e \<Rightarrow> Some (Inl e)
      | _ \<Rightarrow> None)"

text \<open>
  The call after the turns \<open>events\<close> have been taken, in this order: what the caller has
  got, and the state of the run, which holds the container and the requests sent.  A
  property of every run is a property of this for every list of turns.
\<close>

definition translateTextByParagraph ::
  "world \<Rightarrow> AiConfig \<Rightarrow> jsstring list \<Rightarrow> lang option \<Rightarrow> event list \<Rightarrow>
   (error + TranslationResult list) option \<times> run"
where
  "translateTextByParagraph w config paragraphs forcedTargetLang events =
     (let targetLang = detectTargetLang paragraphs forcedTargetLang;
          x = foldl (react w (concurrencyLimit config) targetLang)
                (startExecution config paragraphs) events
      in (settled x, shared x))"

section \<open>The concurrency window of \<open>translateTextByParagraph\<close>\<close>

text \<open>
  The admission loop of lines 386 to 407 as a step relation, for what holds at every point
  of a run under every interleaving.  A promise of \<open>activePromises\<close> is pending (its task is
  in flight) or rejected; a fulfilled one has removed itself from the array in its \<open>then\<close>
  callback, a rejected one never runs that callback and stays.  What a task does while it
  is in flight is \<open>processBatch\<close> above; here it only ends, by fulfilment or by rejection.

  The main function is at the head of the \<open>for\<close> loop (\<open>Looping\<close>), in the inner \<open>while\<close>
  loop after the test of the signal (\<open>Waiting\<close>), at \<open>Promise.all\<close> (\<open>Joining\<close>), or it has
  returned or thrown.  The signal is tested at the head of the \<open>for\<close> loop only.  The tasks
  go on when the main function has thrown.
\<close>

datatype status = Pending | Rejected

datatype position = Looping | Waiting | Joining | Returned | Threw

record executor =
  queue :: "Batch list"
  activePromises :: "(nat \<times> status) list"
  created :: nat
  signalAborted :: bool
  position :: position

definition initialExecutor :: "Batch list \<Rightarrow> bool \<Rightarrow> executor" where
  "initialExecutor batches a =
     \<lparr>queue = batches, activePromises = [], created = 0, signalAborted = a, position = Looping\<rparr>"

definition inFlight :: "executor \<Rightarrow> (nat \<times> status) list" where
  "inFlight x = filter (\<lambda>p. snd p = Pending) (activePromises x)"

inductive step :: "int \<Rightarrow> executor \<Rightarrow> executor \<Rightarrow> bool" for limit :: int where
  enter:
    "position x = Looping \<Longrightarrow> queue x = batch # rest \<Longrightarrow> \<not> signalAborted x \<Longrightarrow>
     step limit x (x\<lparr>position := Waiting\<rparr>)"
| break:
    "position x = Looping \<Longrightarrow> queue x = batch # rest \<Longrightarrow> signalAborted x \<Longrightarrow>
     step limit x (x\<lparr>position := Joining\<rparr>)"
| loopEnd:
    "position x = Looping \<Longrightarrow> queue x = [] \<Longrightarrow> step limit x (x\<lparr>position := Joining\<rparr>)"
| admit:
    "position x = Waiting \<Longrightarrow> queue x = batch # rest \<Longrightarrow>
     \<not> int (length (activePromises x)) \<ge> limit \<Longrightarrow>
     step limit x (x\<lparr>queue := rest,
                      activePromises := activePromises x @ [(created x, Pending)],
                      created := Suc (created x),
                      position := Looping\<rparr>)"
| raceRejects:
    "position x = Waiting \<Longrightarrow> int (length (activePromises x)) \<ge> limit \<Longrightarrow>
     (p, Rejected) \<in> set (activePromises x) \<Longrightarrow>
     step limit x (x\<lparr>position := Threw\<rparr>)"
| allFulfilled:
    "position x = Joining \<Longrightarrow> activePromises x = [] \<Longrightarrow>
     step limit x (x\<lparr>position := Returned\<rparr>)"
| allRejects:
    "position x = Joining \<Longrightarrow> (p, Rejected) \<in> set (activePromises x) \<Longrightarrow>
     step limit x (x\<lparr>position := Threw\<rparr>)"
| fulfil:
    "(p, Pending) \<in> set (activePromises x) \<Longrightarrow>
     step limit x (x\<lparr>activePromises := remove1 (p, Pending) (activePromises x)\<rparr>)"
| reject:
    "(p, Pending) \<in> set (activePromises x) \<Longrightarrow>
     step limit x (x\<lparr>activePromises :=
        map (\<lambda>q. if q = (p, Pending) then (p, Rejected) else q) (activePromises x)\<rparr>)"
| abort:
    "step limit x (x\<lparr>signalAborted := True\<rparr>)"

inductive reachable :: "int \<Rightarrow> Batch list \<Rightarrow> bool \<Rightarrow> executor \<Rightarrow> bool"
  for limit :: int and batches :: "Batch list" and a :: bool
where
  initial: "reachable limit batches a (initialExecutor batches a)"
| further: "reachable limit batches a x \<Longrightarrow> step limit x y \<Longrightarrow> reachable limit batches a y"

section \<open>The cache store\<close>

text \<open>
  The module \<open>aiCache\<close> (\<open>unnamed/part_000\<close>): its two module variables and the file
  system it writes to.  A file holds what \<open>JSON.parse\<close> makes of it: a map of entries, or
  nothing that parses.  \<open>writable\<close> says whether \<open>fs.writeFileSync\<close> succeeds.  The
  time \<open>Date.now()\<close> is an argument of every operation that reads it, and days are whole
  numbers.
\<close>

record AICacheEntry =
  itemId :: jsstring
  summary :: "jsstring option"
  translation :: "jsstring option"
  titleTranslation :: "jsstring option"
  createdAt :: int

datatype cacheFile = Unparsable | Stored "jsstring \<rightharpoonup> AICacheEntry"

record store =
  cacheFilePath :: "jsstring option"
  cacheData :: "jsstring \<rightharpoonup> AICacheEntry"
  disk :: "jsstring \<rightharpoonup> cacheFile"
  writable :: bool

text \<open>The state of the module when it is loaded.\<close>

definition loaded :: "(jsstring \<rightharpoonup> cacheFile) \<Rightarrow> bool \<Rightarrow> store" where
  "loaded d wr = \<lparr>cacheFilePath = None, cacheData = Map.empty, disk = d, writable = wr\<rparr>"

text \<open>\<open>!cacheFilePath\<close> holds of \<open>null\<close> and of the empty string.\<close>

definition noPath :: "store \<Rightarrow> bool" where
  "noPath s = (case cacheFilePath s of None \<Rightarrow> True | Some p \<Rightarrow> p = [])"

text \<open>\<open>path.join\<close>, up to the normalisation of separators.\<close>

definition pathJoin :: "jsstring \<Rightarrow> jsstring \<Rightarrow> jsstring" where
  "pathJoin a b = (if a = [] then b else a @ js ''/'' @ b)"

definition loadCache :: "store \<Rightarrow> store" where
  "loadCache s =
     (if noPath s then s
      else
        (case disk s (the (cacheFilePath s)) of
           None \<Rightarrow> s
         | Some Unparsable \<Rightarrow> s\<lparr>cacheData := Map.empty\<rparr>
         | Some (Stored m) \<Rightarrow> s\<lparr>cacheData := m\<rparr>))"

definition initDB :: "jsstring \<Rightarrow> store \<Rightarrow> store" where
  "initDB userDataPath s =
     loadCache (s\<lparr>cacheFilePath := Some (pathJoin userDataPath (js ''ai-cache.json''))\<rparr>)"

definition saveCache :: "store \<Rightarrow> store" where
  "saveCache s =
     (if noPath s then s
      else if writable s
      then s\<lparr>disk := (disk s)(the (cacheFilePath s) \<mapsto> Stored (cacheData s))\<rparr>
      else s)"

definition getOrCreate :: "store \<Rightarrow> jsstring \<Rightarrow> int \<Rightarrow> AICacheEntry" where
  "getOrCreate s i now =
     (case cacheData s i of
        Some entry \<Rightarrow> entry
      | None \<Rightarrow> \<lparr>itemId = i, summary = None, translation = None, titleTranslation = None,
                 createdAt = now\<rparr>)"

definition saveSummary :: "jsstring \<Rightarrow> jsstring \<Rightarrow> int \<Rightarrow> store \<Rightarrow> store" where
  "saveSummary i v now s =
     (if noPath s then s
      else
        (let entry = (getOrCreate s i now)\<lparr>summary := Some v, createdAt := now\<rparr>
         in saveCache (s\<lparr>cacheData := (cacheData s)(i \<mapsto> entry)\<rparr>)))"

definition saveTranslation :: "jsstring \<Rightarrow> jsstring \<Rightarrow> int \<Rightarrow> store \<Rightarrow> store" where
  "saveTranslation i v now s =
     (if noPath s then s
      else
        (let entry = (getOrCreate s i now)\<lparr>translation := Some v, createdAt := now\<rparr>
         in saveCache (s\<lparr>cacheData := (cacheData s)(i \<mapsto> entry)\<rparr>)))"

definition saveTitleTranslation :: "jsstring \<Rightarrow> jsstring \<Rightarrow> int \<Rightarrow> store \<Rightarrow> store" where
  "saveTitleTranslation i v now s =
     (if noPath s then s
      else
        (let entry = (getOrCreate s i now)\<lparr>titleTranslation := Some v, createdAt := now\<rparr>
         in saveCache (s\<lparr>cacheData := (cacheData s)(i \<mapsto> entry)\<rparr>)))"

definition getCache :: "jsstring \<Rightarrow> store \<Rightarrow> AICacheEntry option" where
  "getCache i s = (if noPath s then None else cacheData s i)"

text \<open>\<open>clearOldCache(daysToKeep = 30)\<close>: \<open>None\<close> is the call without an argument.\<close>

definition clearOldCache :: "int option \<Rightarrow> int \<Rightarrow> store \<Rightarrow> store" where
  "clearOldCache daysToKeep now s =
     (if noPath s then s
      else
        (let days = (case daysToKeep of None \<Rightarrow> 30 | Some d \<Rightarrow> d);
             cutoffTime = now - days * 24 * 60 * 60 * 1000
         in saveCache (s\<lparr>cacheData :=
              (\<lambda>key. case cacheData s key of
                        None \<Rightarrow> None
                      | Some entry \<Rightarrow> if createdAt entry < cutoffTime then None else Some entry)\<rparr>)))"

definition closeDB :: "store \<Rightarrow> store" where
  "closeDB s = saveCache s"

section \<open>The paragraph realignment matcher\<close>

text \<open>
  \<open>s.replace(/<[^>]*>/g, "")\<close>: an opening angle bracket (code unit 60) with a closing
  one (62) somewhere after it is removed together with everything up to the first such
  closing bracket; an opening bracket with no closing one after it stays.
\<close>

function stripTags :: "jsstring \<Rightarrow> jsstring" where
  "stripTags [] = []"
| "stripTags (c # cs) =
     (if c = 60 \<and> 62 \<in> set cs then stripTags (drop 1 (dropWhile (\<lambda>x. x \<noteq> 62) cs))
      else c # stripTags cs)"
  by pat_completeness auto
termination
proof (relation "measure length")
  show "wf (measure length)" by simp
next
  fix c :: nat and cs :: "nat list"
  have "length (dropWhile (\<lambda>x. x \<noteq> 62) cs) \<le> length cs"
    by (rule length_dropWhile_le)
  then show "(drop 1 (dropWhile (\<lambda>x. x \<noteq> 62) cs), c # cs) \<in> measure length"
    by simp
next
  fix c :: nat and cs :: "nat list"
  show "(cs, c # cs) \<in> measure length" by simp
qed

text \<open>
  \<open>calculateTextSimilarity\<close> (\<open>article-ai.ts\<close>, lines 692 to 705).  The score is a
  quotient of two whole numbers up to 100.  Two such quotients are equal or at least
  1/10000 apart, and so are such a quotient and 0.35, far more than the rounding of a
  double: the comparisons of the code come out as on the exact fractions used here.
\<close>

definition calculateTextSimilarity :: "jsstring \<Rightarrow> jsstring \<Rightarrow> rat" where
  "calculateTextSimilarity text1 text2 =
     (let a = stripTags text1; b = stripTags text2;
          len = min (min (length a) (length b)) 100
      in if len = 0 then 0
         else of_nat (length (filter (\<lambda>i. a ! i = b ! i) [0 ..< len])) / of_nat len)"

text \<open>
  The inner loop of \<open>injectCachedTranslations\<close> (lines 388 to 396): one round for index
  \<open>i\<close>, on the pair of \<open>bestIdx\<close> and \<open>bestScore\<close>.
\<close>

definition considerIndex :: "jsstring list \<Rightarrow> nat set \<Rightarrow> jsstring \<Rightarrow> int \<times> rat \<Rightarrow> nat \<Rightarrow> int \<times> rat" where
  "considerIndex txts used orig best i =
     (if i \<in> used then best
      else
        (let score = calculateTextSimilarity (txts ! i) orig
         in if score > snd best then (int i, score) else best))"

definition bestMatch :: "jsstring list \<Rightarrow> nat set \<Rightarrow> jsstring \<Rightarrow> int \<times> rat" where
  "bestMatch txts used orig = foldl (considerIndex txts used orig) (-1, 0) [0 ..< length txts]"

text \<open>
  The outer loop (lines 385 to 403).  Each cached pair that finds a fragment yields the
  index of the fragment, the score it won with and the translation to insert there.
\<close>

fun matchLoop ::
  "jsstring list \<Rightarrow> TranslationResult list \<Rightarrow> nat set \<Rightarrow> (nat \<times> rat \<times> jsstring) list \<times> nat set"
where
  "matchLoop txts [] used = ([], used)"
| "matchLoop txts (t # ts) used =
     (case bestMatch txts used (original t) of
        (bestIdx, bestScore) \<Rightarrow>
          if bestIdx \<ge> 0 \<and> bestScore \<ge> 35 / 100 then
            (case matchLoop txts ts (insert (nat bestIdx) used) of
               (found, used') \<Rightarrow> ((nat bestIdx, bestScore, translated t) # found, used'))
          else matchLoop txts ts used)"

text \<open>The scripts \<open>injectCachedTranslations\<close> runs in the article view, in order.\<close>

datatype script =
    InsertTranslation nat jsstring
  | AppendGlobalTranslation jsstring
  | SetTranslationVisibility bool

fun joinBlank :: "jsstring list \<Rightarrow> jsstring" where
  "joinBlank [] = []"
| "joinBlank [x] = x"
| "joinBlank (x # y # ys) = x @ [10, 10] @ joinBlank (y # ys)"

definition globalBlock :: "TranslationResult list \<Rightarrow> script list" where
  "globalBlock aiTranslation =
     (let allTranslated = joinBlank (filter (\<lambda>x. x \<noteq> []) (map translated aiTranslation))
      in if allTranslated \<noteq> [] then [AppendGlobalTranslation allTranslated] else [])"

definition injectCachedTranslations :: "TranslationResult list \<Rightarrow> jsstring list \<Rightarrow> script list" where
  "injectCachedTranslations aiTranslation txts =
     (if length aiTranslation = 0 then []
      else if length txts = 0 then globalBlock aiTranslation @ [SetTranslationVisibility True]
      else
        (case matchLoop txts aiTranslation {} of
           (found, used) \<Rightarrow>
             map (\<lambda>(bestIdx, bestScore, tr). InsertTranslation bestIdx tr) found
             @ (if used = {} then globalBlock aiTranslation else [])
             @ [SetTranslationVisibility True]))"

section \<open>Properties: the batch planner\<close>

lemma planLoop_invariant:
  assumes "1 \<le> mbs"
    and "planLoop mbs mtl ps i bs cur curLen = (bs', cur')"
    and "concat (map indices bs) @ indices cur = [0 ..< i]"
    and "i \<le> length ps"
    and "curLen = batchChars cur"
    and "\<forall>b \<in> set bs. plannedFrom ps mbs mtl b"
    and "indices cur = [] \<or> batchWithinLimits mbs mtl cur"
    and "texts cur = map ((!) ps) (indices cur)"
  shows "concat (map indices bs') @ indices cur' = [0 ..< length ps] \<and>
         (\<forall>b \<in> set bs'. plannedFrom ps mbs mtl b) \<and>
         (indices cur' = [] \<or> batchWithinLimits mbs mtl cur') \<and>
         texts cur' = map ((!) ps) (indices cur')"
  using assms
proof (induction mbs mtl ps i bs cur curLen rule: planLoop.induct)
  case (1 mbs mtl ps i bs cur curLen)
  show ?case
  proof (cases "i < length ps")
    case False
    with "1.prems" show ?thesis
      by (simp add: planLoop.simps)
  next
    case inside: True
    let ?p = "ps ! i"
    let ?close = "length (indices cur) > 0 \<and>
        (int (length (indices cur)) \<ge> mbs \<or> int (curLen + length ?p) > mtl)"
    show ?thesis
    proof (cases ?close)
      case True
      let ?new = "\<lparr>indices = [i], texts = [?p]\<rparr>"
      from True inside "1.prems"(2)
      have run: "planLoop mbs mtl ps (Suc i) (bs @ [cur]) ?new (length ?p) = (bs', cur')"
        by (simp add: planLoop.simps [of mbs mtl ps i] Let_def)
      from True "1.prems"(7) have curOk: "batchWithinLimits mbs mtl cur" by auto
      have a: "concat (map indices (bs @ [cur])) @ indices ?new = [0 ..< Suc i]"
        using "1.prems"(3) by simp
      have b: "\<forall>b \<in> set (bs @ [cur]). plannedFrom ps mbs mtl b"
        using "1.prems"(6,8) curOk by (simp add: plannedFrom_def)
      have c: "indices ?new = [] \<or> batchWithinLimits mbs mtl ?new"
        using "1.prems"(1) by (simp add: batchWithinLimits_def)
      show ?thesis
        using "1.IH"(1) [OF inside refl refl True "1.prems"(1) run a _ _ b c] inside
        by (simp add: batchChars_def)
    next
      case False
      let ?new = "\<lparr>indices = indices cur @ [i], texts = texts cur @ [?p]\<rparr>"
      from False inside "1.prems"(2)
      have run: "planLoop mbs mtl ps (Suc i) bs ?new (curLen + length ?p) = (bs', cur')"
        by (auto simp add: planLoop.simps [of mbs mtl ps i] Let_def)
      have a: "concat (map indices bs) @ indices ?new = [0 ..< Suc i]"
        using "1.prems"(3) by simp
      have c: "indices ?new = [] \<or> batchWithinLimits mbs mtl ?new"
      proof (cases "indices cur = []")
        case True
        with "1.prems"(1,8) show ?thesis
          by (simp add: batchWithinLimits_def)
      next
        case nonempty: False
        with False have "int (length (indices cur)) < mbs" "int (curLen + length ?p) \<le> mtl"
          by auto
        with "1.prems"(5) show ?thesis
          by (simp add: batchWithinLimits_def batchChars_def)
      qed
      have d: "texts ?new = map ((!) ps) (indices ?new)"
        using "1.prems"(8) by simp
      have e: "curLen + length ?p = batchChars ?new"
        using "1.prems"(5) by (simp add: batchChars_def)
      show ?thesis
        using "1.IH"(2) [OF inside refl refl False "1.prems"(1) run a _ e "1.prems"(6) c d] inside
        by simp
    qed
  qed
qed

lemma createBatches_planned:
  assumes "1 \<le> mbs"
  shows "concat (map indices (createBatches mbs mtl ps)) = [0 ..< length ps] \<and>
         (\<forall>b \<in> set (createBatches mbs mtl ps). plannedFrom ps mbs mtl b)"
proof -
  obtain bs cur where run: "planLoop mbs mtl ps 0 [] emptyBatch 0 = (bs, cur)"
    by (cases "planLoop mbs mtl ps 0 [] emptyBatch 0")
  have inv: "concat (map indices bs) @ indices cur = [0 ..< length ps] \<and>
         (\<forall>b \<in> set bs. plannedFrom ps mbs mtl b) \<and>
         (indices cur = [] \<or> batchWithinLimits mbs mtl cur) \<and>
         texts cur = map ((!) ps) (indices cur)"
    by (rule planLoop_invariant [OF assms run]) (simp_all add: emptyBatch_def batchChars_def)
  show ?thesis
  proof (cases "indices cur = []")
    case True
    with inv run show ?thesis by (simp add: createBatches_def)
  next
    case False
    with inv run show ?thesis by (simp add: createBatches_def plannedFrom_def)
  qed
qed

text \<open>
  Claim C2.  For every paragraph list and every batch size limit of at least one (and every
  character limit), the batches the planning loop produces list the indices
  \<open>0, ..., n - 1\<close> exactly once and in order when their index lists are concatenated in
  batch order; no batch holds more fragments than the size limit; and a batch holds more
  characters than the character limit only if it is a single fragment, which then is
  itself longer than the limit.  The texts of a batch are the paragraphs at its indices.
\<close>

theorem createBatches_partition:
  assumes "1 \<le> mbs"
  shows "concat (map indices (createBatches mbs mtl ps)) = [0 ..< length ps] \<and>
         (\<forall>b \<in> set (createBatches mbs mtl ps).
            int (length (indices b)) \<le> mbs \<and>
            (int (batchChars b) \<le> mtl \<or> length (indices b) = 1) \<and>
            texts b = map ((!) ps) (indices b))"
  using createBatches_planned [OF assms, of mtl ps]
  by (simp add: plannedFrom_def batchWithinLimits_def)

theorem createBatches_partition_witness:
  "concat (map indices
     (createBatches 2 10 [js ''hello'', js ''world!'', js ''a'', js ''this is long text'', js ''b''])) = [0, 1, 2, 3, 4] \<and>
   list_all (\<lambda>b. int (length (indices b)) \<le> 2 \<and>
                 (int (batchChars b) \<le> 10 \<or> length (indices b) = 1) \<and>
                 texts b = map ((!) [js ''hello'', js ''world!'', js ''a'', js ''this is long text'', js ''b''])
                             (indices b))
     (createBatches 2 10 [js ''hello'', js ''world!'', js ''a'', js ''this is long text'', js ''b'']) \<and>
   map indices
     (createBatches 2 10 [js ''hello'', js ''world!'', js ''a'', js ''this is long text'', js ''b''])
     = [[0], [1, 2], [3], [4]]"
proof -
  have plan: "map indices
     (createBatches 2 10 [js ''hello'', js ''world!'', js ''a'', js ''this is long text'', js ''b''])
     = [[0], [1, 2], [3], [4]]"
    by (simp add: createBatches_def planLoop.simps emptyBatch_def js_def)
  have limit: "(1::int) \<le> 2" by simp
  show ?thesis
    using createBatches_partition [OF limit, of 10
        "[js ''hello'', js ''world!'', js ''a'', js ''this is long text'', js ''b'']"] plan
    by (simp add: list_all_iff upt_conv_Cons)
qed

section \<open>Properties: the cache store\<close>

lemma initDB_has_path: "\<not> noPath (initDB userDataPath s)"
  by (simp add: initDB_def loadCache_def noPath_def pathJoin_def js_def
      split: option.splits cacheFile.splits)

text \<open>
  Claim C8, as amended.  In a store with its file path set (after \<open>initDB\<close>),
  \<open>saveTranslation(itemId, v)\<close> followed by \<open>getCache(itemId)\<close> returns an entry whose
  translation is \<open>v\<close>; and \<open>clearOldCache(0)\<close> removes exactly the entries whose
  \<open>createdAt\<close> is earlier than the current time: an entry stamped with the current
  millisecond or a later one stays.
\<close>

theorem cache_roundtrip_initialised:
  assumes "\<not> noPath s"
  shows "(\<exists>e. getCache i (saveTranslation i v now s) = Some e \<and> translation e = Some v) \<and>
         (\<forall>k. getCache k (clearOldCache (Some 0) now s) =
              (case getCache k s of
                 None \<Rightarrow> None
               | Some e \<Rightarrow> if createdAt e < now then None else Some e))"
  using assms
  by (simp add: getCache_def saveTranslation_def clearOldCache_def saveCache_def noPath_def
      Let_def split: option.splits)

theorem cache_roundtrip_initialised_witness:
  "(\<exists>e. getCache (js ''a'')
           (saveTranslation (js ''a'') (js ''x'') 1000 (initDB (js ''/data'') (loaded Map.empty True)))
         = Some e \<and> translation e = Some (js ''x'')) \<and>
   getCache (js ''a'')
     (clearOldCache (Some 0) 2000
        (saveTranslation (js ''a'') (js ''x'') 1000 (initDB (js ''/data'') (loaded Map.empty True))))
     = None"
proof -
  let ?s0 = "initDB (js ''/data'') (loaded Map.empty True)"
  let ?s1 = "saveTranslation (js ''a'') (js ''x'') 1000 ?s0"
  have h0: "\<not> noPath ?s0" by (rule initDB_has_path)
  have h1: "\<not> noPath ?s1"
    using h0 by (simp add: saveTranslation_def saveCache_def noPath_def Let_def)
  have stamp: "\<exists>e. getCache (js ''a'') ?s1 = Some e \<and> createdAt e = 1000"
    using h0 by (simp add: getCache_def saveTranslation_def saveCache_def noPath_def Let_def)
  from cache_roundtrip_initialised [OF h0, of "js ''a''" "js ''x''" 1000]
  have first: "\<exists>e. getCache (js ''a'') ?s1 = Some e \<and> translation e = Some (js ''x'')"
    by simp
  from cache_roundtrip_initialised [OF h1, of "js ''a''" "js ''x''" 2000] stamp
  have second: "getCache (js ''a'') (clearOldCache (Some 0) 2000 ?s1) = None"
    by auto
  from first second show ?thesis by simp
qed

text \<open>
  The claim as it stands fails twice: before \<open>initDB\<close> a saved translation is not there to
  get, and after \<open>initDB\<close> an entry saved in the millisecond in which \<open>clearOldCache(0)\<close>
  runs is not older than the cutoff and survives.
\<close>

theorem clearOldCache_zero_keeps_fresh_entry:
  "getCache (js ''a'') (saveTranslation (js ''a'') (js ''x'') 1000 (loaded Map.empty True)) = None \<and>
   getCache (js ''a'')
     (clearOldCache (Some 0) 1000
        (saveTranslation (js ''a'') (js ''x'') 1000
           (initDB (js ''/data'') (loaded Map.empty True)))) \<noteq> None"
  by (simp add: getCache_def saveTranslation_def clearOldCache_def saveCache_def noPath_def
      initDB_def loadCache_def loaded_def pathJoin_def getOrCreate_def js_def Let_def)

text \<open>
  Claim C10.  In the state of the module before \<open>initDB\<close> (no file path), \<open>getCache\<close>
  returns \<open>null\<close>, and \<open>saveSummary\<close>, \<open>saveTranslation\<close>, \<open>saveTitleTranslation\<close> and
  \<open>clearOldCache\<close> return leaving the whole state as it was: the in-memory map and the disk
  are untouched.
\<close>

theorem before_initDB_noop:
  "getCache i (loaded d wr) = None \<and>
   saveSummary i v now (loaded d wr) = loaded d wr \<and>
   saveTranslation i v now (loaded d wr) = loaded d wr \<and>
   saveTitleTranslation i v now (loaded d wr) = loaded d wr \<and>
   clearOldCache days now (loaded d wr) = loaded d wr"
  by (simp add: getCache_def saveSummary_def saveTranslation_def saveTitleTranslation_def
      clearOldCache_def noPath_def loaded_def)

section \<open>Properties: \<open>translateBatch\<close>\<close>

lemma chatCompletion_results: "chatCompletion w req s = (r, s') \<Longrightarrow> results s' = results s"
  by (auto simp add: chatCompletion_def split: if_splits)

lemma translateSequential_results:
  "translateSequential w ts lg s = (r, s') \<Longrightarrow> results s' = results s"
proof (induction ts arbitrary: s r s')
  case Nil
  then show ?case by simp
next
  case (Cons t ts)
  obtain r1 s1 where first: "translateText w t lg s = (r1, s1)"
    by (cases "translateText w t lg s")
  then have keep: "results s1 = results s"
    by (simp add: translateText_def chatCompletion_results)
  show ?case
  proof (cases r1)
    case (Inl e)
    with Cons.prems first keep show ?thesis by simp
  next
    case (Inr x)
    obtain r2 s2 where rest: "translateSequential w ts lg s1 = (r2, s2)"
      by (cases "translateSequential w ts lg s1")
    from Cons.IH [OF rest] keep have "results s2 = results s" by simp
    with Cons.prems first Inr rest show ?thesis
      by (cases r2) auto
  qed
qed

lemma translateSequential_length:
  "translateSequential w ts lg s = (Inr rs, s') \<Longrightarrow> length rs = length ts"
proof (induction ts arbitrary: s rs s')
  case Nil
  then show ?case by simp
next
  case (Cons t ts)
  then show ?case
    by (auto split: prod.splits sum.splits)
qed

lemma translateBatch_results:
  assumes "translateBatch w txts lg s = (r, s')"
  shows "results s' = results s"
proof -
  obtain r1 s1 where bulk: "chatCompletion w (ArrayRequest txts lg) s = (r1, s1)"
    by (cases "chatCompletion w (ArrayRequest txts lg) s")
  then have keep1: "results s1 = results s" by (rule chatCompletion_results)
  obtain r0 s0 where single: "translateText w (txts ! 0) lg s = (r0, s0)"
    by (cases "translateText w (txts ! 0) lg s")
  then have keep0: "results s0 = results s"
    by (simp add: translateText_def chatCompletion_results)
  obtain r2 s2 where fallback: "translateSequential w txts lg s1 = (r2, s2)"
    by (cases "translateSequential w txts lg s1")
  then have keep2: "results s2 = results s"
    using keep1 by (simp add: translateSequential_results)
  from assms bulk single fallback keep0 keep1 keep2 show ?thesis
    by (auto simp add: translateBatch_def
        split: if_splits sum.splits option.splits json.splits)
qed

lemma translateBatch_length:
  "translateBatch w txts lg s = (Inr ys, s') \<Longrightarrow> length ys = length txts"
  by (auto simp add: translateBatch_def dest: translateSequential_length
      split: if_splits prod.splits sum.splits option.splits json.splits)

lemma chatCompletion_answers:
  assumes "\<forall>t. \<not> aborted w t" and "\<forall>k req. \<exists>r. server w k req = Inr r"
  shows "\<exists>r s'. chatCompletion w req s = (Inr r, s')"
  using assms by (simp add: chatCompletion_def)

lemma translateSequential_answers:
  assumes "\<forall>t. \<not> aborted w t" and "\<forall>k req. \<exists>r. server w k req = Inr r"
  shows "\<exists>rs s'. translateSequential w ts lg s = (Inr rs, s')"
proof (induction ts arbitrary: s)
  case Nil
  show ?case by simp
next
  case (Cons t ts)
  from chatCompletion_answers [OF assms]
  obtain r s1 where first: "translateText w t lg s = (Inr r, s1)"
    unfolding translateText_def by blast
  from Cons.IH obtain rs s2 where "translateSequential w ts lg s1 = (Inr rs, s2)"
    by blast
  with first show ?case by simp
qed

lemma translateBatch_answers:
  assumes "\<forall>t. \<not> aborted w t" and "\<forall>k req. \<exists>r. server w k req = Inr r"
  shows "\<exists>ys s'. translateBatch w txts lg s = (Inr ys, s')"
proof -
  from chatCompletion_answers [OF assms]
  obtain r s1 where bulk: "chatCompletion w (ArrayRequest txts lg) s = (Inr r, s1)"
    by blast
  from chatCompletion_answers [OF assms]
  obtain r0 s0 where single: "translateText w (txts ! 0) lg s = (Inr r0, s0)"
    unfolding translateText_def by blast
  from translateSequential_answers [OF assms]
  obtain rs s2 where fallback: "translateSequential w txts lg s1 = (Inr rs, s2)"
    by blast
  from bulk single fallback show ?thesis
    by (simp add: translateBatch_def split: option.splits json.splits)
qed

lemma chatCompletion_calm:
  "\<forall>t. \<not> aborted w t \<Longrightarrow>
   chatCompletion w req s = (server w (length (sent s)) req, afterRequests s [req])"
  by (simp add: chatCompletion_def afterRequests_def)

lemma afterRequests_append:
  "afterRequests (afterRequests s xs) ys = afterRequests s (xs @ ys)"
  by (simp add: afterRequests_def)

lemma afterRequests_sent: "length (sent (afterRequests s xs)) = length (sent s) + length xs"
  by (simp add: afterRequests_def)

lemma translateSequential_all_answered:
  assumes never: "\<forall>t. \<not> aborted w t"
  shows "\<forall>i < length ts. \<exists>r. fallbackAnswer w (length (sent s)) ts i = Inr r \<Longrightarrow>
         translateSequential w ts lg s =
           (Inr (map (\<lambda>i. projr (fallbackAnswer w (length (sent s)) ts i)) [0 ..< length ts]),
            afterRequests s (map TextRequest ts))"
proof (induction ts arbitrary: s)
  case Nil
  show ?case by (simp add: afterRequests_def)
next
  case (Cons t ts)
  let ?n = "length (sent s)"
  let ?s1 = "afterRequests s [TextRequest t]"
  from Cons.prems have "\<exists>r. fallbackAnswer w ?n (t # ts) 0 = Inr r" by blast
  then obtain r where first: "server w ?n (TextRequest t) = Inr r"
    by (auto simp add: fallbackAnswer_def)
  have shift: "fallbackAnswer w (length (sent ?s1)) ts i = fallbackAnswer w ?n (t # ts) (Suc i)" for i
    by (simp add: fallbackAnswer_def afterRequests_sent)
  have "\<forall>i < length ts. \<exists>r. fallbackAnswer w (length (sent ?s1)) ts i = Inr r"
    using Cons.prems by (auto simp add: shift)
  from Cons.IH [OF this]
  have rest: "translateSequential w ts lg ?s1 =
           (Inr (map (\<lambda>i. projr (fallbackAnswer w ?n (t # ts) (Suc i))) [0 ..< length ts]),
            afterRequests s (TextRequest t # map TextRequest ts))"
    by (simp add: shift afterRequests_append)
  have head: "projr (fallbackAnswer w ?n (t # ts) 0) = r"
    using first by (simp add: fallbackAnswer_def)
  have "map (\<lambda>i. projr (fallbackAnswer w ?n (t # ts) i)) [0 ..< length (t # ts)] =
        r # map (\<lambda>i. projr (fallbackAnswer w ?n (t # ts) (Suc i))) [0 ..< length ts]"
    using head by (simp add: map_upt_Suc del: upt_Suc)
  with first rest show ?case
    by (simp add: translateText_def chatCompletion_calm [OF never])
qed

lemma translateSequential_first_failure:
  assumes never: "\<forall>t. \<not> aborted w t"
  shows "j < length ts \<Longrightarrow>
         \<forall>i < j. \<exists>r. fallbackAnswer w (length (sent s)) ts i = Inr r \<Longrightarrow>
         fallbackAnswer w (length (sent s)) ts j = Inl e \<Longrightarrow>
         translateSequential w ts lg s =
           (Inl e, afterRequests s (map TextRequest (take (Suc j) ts)))"
proof (induction ts arbitrary: s j)
  case Nil
  then show ?case by simp
next
  case (Cons t ts)
  let ?n = "length (sent s)"
  let ?s1 = "afterRequests s [TextRequest t]"
  have shift: "fallbackAnswer w (length (sent ?s1)) ts i = fallbackAnswer w ?n (t # ts) (Suc i)" for i
    by (simp add: fallbackAnswer_def afterRequests_sent)
  show ?case
  proof (cases j)
    case 0
    with Cons.prems have "server w ?n (TextRequest t) = Inl e"
      by (simp add: fallbackAnswer_def)
    with 0 show ?thesis
      by (simp add: translateText_def chatCompletion_calm [OF never])
  next
    case (Suc j')
    with Cons.prems have "\<exists>r. fallbackAnswer w ?n (t # ts) 0 = Inr r" by blast
    then obtain r where first: "server w ?n (TextRequest t) = Inr r"
      by (auto simp add: fallbackAnswer_def)
    from Suc Cons.prems have a: "j' < length ts" by simp
    from Suc Cons.prems have b: "\<forall>i < j'. \<exists>r. fallbackAnswer w (length (sent ?s1)) ts i = Inr r"
      by (auto simp add: shift)
    from Suc Cons.prems have c: "fallbackAnswer w (length (sent ?s1)) ts j' = Inl e"
      by (simp add: shift)
    from Cons.IH [OF a b c]
    have "translateSequential w ts lg ?s1 =
            (Inl e, afterRequests s (TextRequest t # map TextRequest (take (Suc j') ts)))"
      by (simp add: afterRequests_append)
    with first Suc show ?thesis
      by (simp add: translateText_def chatCompletion_calm [OF never])
  qed
qed

lemma translateBatch_refused:
  "aborted w (clock s) \<Longrightarrow> txts \<noteq> [] \<Longrightarrow> translateBatch w txts lg s = (Inl AbortError, s)"
  by (simp add: translateBatch_def translateText_def chatCompletion_def)

lemma translateBatch_single:
  "\<forall>t. \<not> aborted w t \<Longrightarrow>
   translateBatch w [t] lg s =
     (case server w (length (sent s)) (TextRequest t) of Inl e \<Rightarrow> Inl e | Inr r \<Rightarrow> Inr [r],
      afterRequests s [TextRequest t])"
  by (simp add: translateBatch_def translateText_def chatCompletion_calm split: sum.splits)

lemma translateBatch_bulk:
  assumes never: "\<forall>t. \<not> aborted w t" and many: "2 \<le> length txts"
  shows "translateBatch w txts lg s =
     (case server w (length (sent s)) (ArrayRequest txts lg) of
        Inl e \<Rightarrow> (Inl e, afterRequests s [ArrayRequest txts lg])
      | Inr responseRaw \<Rightarrow>
          (case validArray w responseRaw (length txts) of
             Some parsed \<Rightarrow> (Inr (map String_js parsed), afterRequests s [ArrayRequest txts lg])
           | None \<Rightarrow> translateSequential w txts lg (afterRequests s [ArrayRequest txts lg])))"
proof -
  let ?s1 = "afterRequests s [ArrayRequest txts lg]"
  from many have several: "length txts \<noteq> 0" "length txts \<noteq> 1" by auto
  show ?thesis
  proof (cases "server w (length (sent s)) (ArrayRequest txts lg)")
    case (Inl e)
    with several show ?thesis
      by (simp add: translateBatch_def chatCompletion_calm [OF never])
  next
    case (Inr responseRaw)
    show ?thesis
    proof (cases "JSON_parse w (cleanResponse responseRaw)")
      case None
      with Inr several show ?thesis
        by (simp add: translateBatch_def chatCompletion_calm [OF never] validArray_def)
    next
      case (Some v)
      then show ?thesis
        using Inr several
        by (cases v)
           (simp_all add: translateBatch_def chatCompletion_calm [OF never] validArray_def)
    qed
  qed
qed


text \<open>
  Claim C6.  Whenever \<open>translateBatch\<close> returns, the array has the length of its input.
  With the signal aborted it sends nothing and throws.  With the signal never aborted:
  for a single text it sends one request for that text and returns the answer alone and
  unchanged, or throws the error of the call; for two or more texts it sends one request
  for the array; it throws if that call fails; it returns the parsed response, each
  element as a string, where the response parses to an array of exactly the input length;
  and in every other case it falls back to one request per text, in the order of the
  texts, returning their answers in that order if all are answered and throwing the first
  error otherwise, with no request after the one that failed.
\<close>

theorem translateBatch_contract:
  "(\<forall>ys s'. translateBatch w txts lg s = (Inr ys, s') \<longrightarrow> length ys = length txts) \<and>
   (aborted w (clock s) \<and> txts \<noteq> [] \<longrightarrow> translateBatch w txts lg s = (Inl AbortError, s)) \<and>
   ((\<forall>t. \<not> aborted w t) \<longrightarrow>
      (\<forall>t. txts = [t] \<longrightarrow>
         translateBatch w txts lg s =
           (case server w (length (sent s)) (TextRequest t) of
              Inl e \<Rightarrow> Inl e
            | Inr r \<Rightarrow> Inr [r],
            afterRequests s [TextRequest t])) \<and>
      (2 \<le> length txts \<longrightarrow>
         (\<forall>e. server w (length (sent s)) (ArrayRequest txts lg) = Inl e \<longrightarrow>
            translateBatch w txts lg s = (Inl e, afterRequests s [ArrayRequest txts lg])) \<and>
         (\<forall>responseRaw parsed.
            server w (length (sent s)) (ArrayRequest txts lg) = Inr responseRaw \<and>
            validArray w responseRaw (length txts) = Some parsed \<longrightarrow>
            translateBatch w txts lg s =
              (Inr (map String_js parsed), afterRequests s [ArrayRequest txts lg])) \<and>
         (\<forall>responseRaw.
            server w (length (sent s)) (ArrayRequest txts lg) = Inr responseRaw \<and>
            validArray w responseRaw (length txts) = None \<longrightarrow>
            ((\<forall>i < length txts. \<exists>r. fallbackAnswer w (Suc (length (sent s))) txts i = Inr r) \<longrightarrow>
               translateBatch w txts lg s =
                 (Inr (map (\<lambda>i. projr (fallbackAnswer w (Suc (length (sent s))) txts i))
                         [0 ..< length txts]),
                  afterRequests s (ArrayRequest txts lg # map TextRequest txts))) \<and>
            (\<forall>j e. j < length txts \<and>
                (\<forall>i < j. \<exists>r. fallbackAnswer w (Suc (length (sent s))) txts i = Inr r) \<and>
                fallbackAnswer w (Suc (length (sent s))) txts j = Inl e \<longrightarrow>
               translateBatch w txts lg s =
                 (Inl e,
                  afterRequests s (ArrayRequest txts lg # map TextRequest (take (Suc j) txts)))))))"
proof (intro conjI impI allI)
  fix ys s' assume "translateBatch w txts lg s = (Inr ys, s')"
  then show "length ys = length txts" by (rule translateBatch_length)
next
  assume "aborted w (clock s) \<and> txts \<noteq> []"
  then show "translateBatch w txts lg s = (Inl AbortError, s)"
    by (simp add: translateBatch_refused)
next
  fix t assume "\<forall>t. \<not> aborted w t" and "txts = [t]"
  then show "translateBatch w txts lg s =
           (case server w (length (sent s)) (TextRequest t) of
              Inl e \<Rightarrow> Inl e
            | Inr r \<Rightarrow> Inr [r],
            afterRequests s [TextRequest t])"
    by (simp add: translateBatch_single)
next
  fix e
  assume "\<forall>t. \<not> aborted w t" and "2 \<le> length txts"
    and "server w (length (sent s)) (ArrayRequest txts lg) = Inl e"
  then show "translateBatch w txts lg s = (Inl e, afterRequests s [ArrayRequest txts lg])"
    by (simp add: translateBatch_bulk)
next
  fix responseRaw parsed
  assume "\<forall>t. \<not> aborted w t" and "2 \<le> length txts"
    and "server w (length (sent s)) (ArrayRequest txts lg) = Inr responseRaw \<and>
         validArray w responseRaw (length txts) = Some parsed"
  then show "translateBatch w txts lg s =
              (Inr (map String_js parsed), afterRequests s [ArrayRequest txts lg])"
    by (simp add: translateBatch_bulk)
next
  fix responseRaw
  assume never: "\<forall>t. \<not> aborted w t" and many: "2 \<le> length txts"
    and invalid: "server w (length (sent s)) (ArrayRequest txts lg) = Inr responseRaw \<and>
         validArray w responseRaw (length txts) = None"
    and answered: "\<forall>i < length txts. \<exists>r. fallbackAnswer w (Suc (length (sent s))) txts i = Inr r"
  let ?s1 = "afterRequests s [ArrayRequest txts lg]"
  have n: "length (sent ?s1) = Suc (length (sent s))" by (simp add: afterRequests_sent)
  from answered
  have "\<forall>i < length txts. \<exists>r. fallbackAnswer w (length (sent ?s1)) txts i = Inr r"
    by (simp only: n)
  from translateSequential_all_answered [OF never this, of lg]
  have "translateSequential w txts lg ?s1 =
          (Inr (map (\<lambda>i. projr (fallbackAnswer w (Suc (length (sent s))) txts i)) [0 ..< length txts]),
           afterRequests s (ArrayRequest txts lg # map TextRequest txts))"
    by (simp add: n afterRequests_append)
  with never many invalid
  show "translateBatch w txts lg s =
                 (Inr (map (\<lambda>i. projr (fallbackAnswer w (Suc (length (sent s))) txts i))
                         [0 ..< length txts]),
                  afterRequests s (ArrayRequest txts lg # map TextRequest txts))"
    by (simp add: translateBatch_bulk)
next
  fix responseRaw j e
  assume never: "\<forall>t. \<not> aborted w t" and many: "2 \<le> length txts"
    and invalid: "server w (length (sent s)) (ArrayRequest txts lg) = Inr responseRaw \<and>
         validArray w responseRaw (length txts) = None"
    and failure: "j < length txts \<and>
                (\<forall>i < j. \<exists>r. fallbackAnswer w (Suc (length (sent s))) txts i = Inr r) \<and>
                fallbackAnswer w (Suc (length (sent s))) txts j = Inl e"
  let ?s1 = "afterRequests s [ArrayRequest txts lg]"
  have n: "length (sent ?s1) = Suc (length (sent s))" by (simp add: afterRequests_sent)
  from failure have a: "j < length txts"
    and b: "\<forall>i < j. \<exists>r. fallbackAnswer w (length (sent ?s1)) txts i = Inr r"
    and c: "fallbackAnswer w (length (sent ?s1)) txts j = Inl e"
    by (simp_all add: n)
  from translateSequential_first_failure [OF never a b c, of lg]
  have "translateSequential w txts lg ?s1 =
          (Inl e, afterRequests s (ArrayRequest txts lg # map TextRequest (take (Suc j) txts)))"
    by (simp add: afterRequests_append)
  with never many invalid
  show "translateBatch w txts lg s =
                 (Inl e,
                  afterRequests s (ArrayRequest txts lg # map TextRequest (take (Suc j) txts)))"
    by (simp add: translateBatch_bulk)
qed

theorem translateBatch_contract_witness:
  "translateBatch
     \<lparr>server = (\<lambda>k req. case req of
                   TextRequest t \<Rightarrow> Inr (t @ js ''!'')
                 | ArrayRequest ts l \<Rightarrow> if l = En then Inr (js ''[1,2]'') else Inr (js ''[1]'')),
       aborted = (\<lambda>t. False),
       JSON_parse = (\<lambda>s. if s = js ''[1,2]'' then Some (JArray [JNumber (js ''1''), JNumber (js ''2'')])
                         else if s = js ''[1]'' then Some (JArray [JNumber (js ''1'')])
                         else None)\<rparr>
     [js ''a''] Zh (initialRun [js ''a''])
   = (Inr [js ''a!''], afterRequests (initialRun [js ''a'']) [TextRequest (js ''a'')]) \<and>
   translateBatch
     \<lparr>server = (\<lambda>k req. case req of
                   TextRequest t \<Rightarrow> Inr (t @ js ''!'')
                 | ArrayRequest ts l \<Rightarrow> if l = En then Inr (js ''[1,2]'') else Inr (js ''[1]'')),
       aborted = (\<lambda>t. False),
       JSON_parse = (\<lambda>s. if s = js ''[1,2]'' then Some (JArray [JNumber (js ''1''), JNumber (js ''2'')])
                         else if s = js ''[1]'' then Some (JArray [JNumber (js ''1'')])
                         else None)\<rparr>
     [js ''a'', js ''b''] En (initialRun [js ''a'', js ''b''])
   = (Inr [js ''1'', js ''2''],
      afterRequests (initialRun [js ''a'', js ''b'']) [ArrayRequest [js ''a'', js ''b''] En]) \<and>
   translateBatch
     \<lparr>server = (\<lambda>k req. case req of
                   TextRequest t \<Rightarrow> Inr (t @ js ''!'')
                 | ArrayRequest ts l \<Rightarrow> if l = En then Inr (js ''[1,2]'') else Inr (js ''[1]'')),
       aborted = (\<lambda>t. False),
       JSON_parse = (\<lambda>s. if s = js ''[1,2]'' then Some (JArray [JNumber (js ''1''), JNumber (js ''2'')])
                         else if s = js ''[1]'' then Some (JArray [JNumber (js ''1'')])
                         else None)\<rparr>
     [js ''a'', js ''b''] Zh (initialRun [js ''a'', js ''b''])
   = (Inr [js ''a!'', js ''b!''],
      afterRequests (initialRun [js ''a'', js ''b''])
        [ArrayRequest [js ''a'', js ''b''] Zh, TextRequest (js ''a''), TextRequest (js ''b'')])"
proof -
  let ?w = "\<lparr>server = (\<lambda>k req. case req of
                   TextRequest t \<Rightarrow> Inr (t @ js ''!'')
                 | ArrayRequest ts l \<Rightarrow> if l = En then Inr (js ''[1,2]'') else Inr (js ''[1]'')),
       aborted = (\<lambda>t. False),
       JSON_parse = (\<lambda>s. if s = js ''[1,2]'' then Some (JArray [JNumber (js ''1''), JNumber (js ''2'')])
                         else if s = js ''[1]'' then Some (JArray [JNumber (js ''1'')])
                         else None)\<rparr>"
  let ?one = "[js ''a'']" and ?two = "[js ''a'', js ''b'']"
  have never: "\<forall>t. \<not> aborted ?w t" by simp
  have trimmed: "cleanResponse (js ''[1,2]'') = js ''[1,2]''" "cleanResponse (js ''[1]'') = js ''[1]''"
    by (simp_all add: cleanResponse_def trim_def startsWith_def endsWith_def isSpace_def js_def)
  have differ: "js ''[1]'' \<noteq> js ''[1,2]''" by (simp add: js_def)
  have accepted: "validArray ?w (js ''[1,2]'') (length ?two) = Some [JNumber (js ''1''), JNumber (js ''2'')]"
    by (simp add: validArray_def trimmed)
  have refused: "validArray ?w (js ''[1]'') (length ?two) = None"
    by (simp add: validArray_def trimmed differ)
  have answered: "\<forall>i < length ?two.
      \<exists>r. fallbackAnswer ?w (Suc (length (sent (initialRun ?two)))) ?two i = Inr r"
    by (simp add: fallbackAnswer_def)
  have answers: "map (\<lambda>i. projr (fallbackAnswer ?w (Suc (length (sent (initialRun ?two)))) ?two i))
      [0 ..< length ?two] = [js ''a!'', js ''b!'']"
    by (simp add: fallbackAnswer_def upt_conv_Cons js_def)
  note single = translateBatch_contract [of ?w ?one Zh "initialRun ?one"]
  note bulk = translateBatch_contract [of ?w ?two En "initialRun ?two"]
  note fallback = translateBatch_contract [of ?w ?two Zh "initialRun ?two"]
  from single never have first: "translateBatch ?w ?one Zh (initialRun ?one)
     = (Inr [js ''a!''], afterRequests (initialRun ?one) [TextRequest (js ''a'')])"
    by (simp add: js_def)
  from bulk never accepted have second: "translateBatch ?w ?two En (initialRun ?two)
     = (Inr [js ''1'', js ''2''], afterRequests (initialRun ?two) [ArrayRequest ?two En])"
    by simp
  from fallback never refused answered answers have third: "translateBatch ?w ?two Zh (initialRun ?two)
     = (Inr [js ''a!'', js ''b!''],
        afterRequests (initialRun ?two) [ArrayRequest ?two Zh, TextRequest (js ''a''), TextRequest (js ''b'')])"
    by simp
  from first second third show ?thesis by (intro conjI)
qed

section \<open>Properties: the result container\<close>

text \<open>
  Every operation that touches the result container leaves its length and the \<open>original\<close>
  of every entry as they were: a write sets the \<open>translated\<close> field of one entry.
\<close>

lemma setTranslated_originals:
  "map original (results (setTranslated i t s)) = map original (results s)"
proof (cases "i < length (results s)")
  case True
  then show ?thesis
    by (simp add: setTranslated_def map_update list_update_same_conv)
next
  case False
  then show ?thesis by (simp add: setTranslated_def list_update_beyond)
qed

lemma notify_results: "results (notify w i t s) = results s"
  by (simp add: notify_def)

lemma writeBack_originals:
  "writeBack w ps s = (r, s') \<Longrightarrow> map original (results s') = map original (results s)"
proof (induction ps arbitrary: s)
  case Nil
  then show ?case by simp
next
  case (Cons p ps)
  obtain i t where p: "p = (i, t)" by (cases p)
  show ?case
  proof (cases "i < length (results s)")
    case True
    with Cons.prems p
    have "writeBack w ps (notify w i t (setTranslated i t s)) = (r, s')" by simp
    from Cons.IH [OF this] show ?thesis
      by (simp add: notify_results setTranslated_originals)
  next
    case False
    with Cons.prems p show ?thesis by simp
  qed
qed

lemma markEmpty_originals:
  "markEmpty is s = (r, s') \<Longrightarrow> map original (results s') = map original (results s)"
proof (induction "is" arbitrary: s)
  case Nil
  then show ?case by simp
next
  case (Cons i "is")
  show ?case
  proof (cases "i < length (results s)")
    case True
    with Cons.prems have "markEmpty is (setTranslated i [] s) = (r, s')" by simp
    from Cons.IH [OF this] show ?thesis
      by (simp add: setTranslated_originals)
  next
    case False
    with Cons.prems show ?thesis by simp
  qed
qed


lemma tryBlock_originals:
  assumes "tryBlock w lg batch s = (r, s')"
  shows "map original (results s') = map original (results s)"
proof -
  obtain r1 s1 where call: "translateBatch w (texts batch) lg s = (r1, s1)"
    by (cases "translateBatch w (texts batch) lg s")
  then have keep: "results s1 = results s" by (rule translateBatch_results)
  show ?thesis
  proof (cases r1)
    case (Inl e)
    with assms call keep show ?thesis by (simp add: tryBlock_def)
  next
    case (Inr translatedTexts)
    show ?thesis
    proof (cases "find failureMarker translatedTexts")
      case (Some t)
      with assms call keep Inr show ?thesis by (simp add: tryBlock_def)
    next
      case None
      with assms call Inr
      have "writeBack w
              (map (\<lambda>batchIndex. (indices batch ! batchIndex, translatedTexts ! batchIndex))
                 [0 ..< length (indices batch)]) s1 = (r, s')"
        by (simp add: tryBlock_def)
      from writeBack_originals [OF this] keep show ?thesis by simp
    qed
  qed
qed

lemma processLoop_originals:
  "processLoop w lg batch retryCount s = (r, s') \<Longrightarrow>
   map original (results s') = map original (results s)"
proof (induction w lg batch retryCount s rule: processLoop.induct)
  case (1 w lg batch retryCount s)
  show ?case
  proof (cases "aborted w (clock s)")
    case True
    with "1.prems" show ?thesis by (simp add: processLoop.simps)
  next
    case running: False
    obtain r1 s1 where attempt: "tryBlock w lg batch s = (r1, s1)"
      by (cases "tryBlock w lg batch s")
    then have keep: "map original (results s1) = map original (results s)"
      by (rule tryBlock_originals)
    show ?thesis
    proof (cases r1)
      case None
      with "1.prems" running attempt keep show ?thesis
        by (simp add: processLoop.simps [of w lg batch retryCount s])
    next
      case (Some err)
      show ?thesis
      proof (cases "isAbort err")
        case True
        with "1.prems" running attempt keep Some show ?thesis
          by (simp add: processLoop.simps [of w lg batch retryCount s])
      next
        case failed: False
        show ?thesis
        proof (cases "Suc retryCount > maxRetries")
          case True
          with "1.prems" running attempt Some failed
          have "markEmpty (indices batch) s1 = (r, s')"
            by (simp add: processLoop.simps [of w lg batch retryCount s])
          from markEmpty_originals [OF this] keep show ?thesis by simp
        next
          case False
          with "1.prems" running attempt Some failed
          have again: "processLoop w lg batch (Suc retryCount) (backoff s1) = (r, s')"
            by (simp add: processLoop.simps [of w lg batch retryCount s])
          have "map original (results s') = map original (results (backoff s1))"
            using "1.IH" [OF running attempt [symmetric] _ failed False again] Some by simp
          with keep show ?thesis by (simp add: backoff_def)
        qed
      qed
    qed
  qed
qed

lemma processBatch_originals:
  "processBatch w lg batch s = (r, s') \<Longrightarrow>
   map original (results s') = map original (results s)"
  by (auto simp add: processBatch_def dest: processLoop_originals split: if_splits)















text \<open>
  The window of this model is the code's: \<open>activePromises\<close> never holds more promises than
  the limit, and with a negative limit the function waits for ever at \<open>Promise.race\<close> of
  an empty array.
\<close>

lemma settle_length: "length (settle p e ps) \<le> length ps"
  by (cases e) (simp_all add: settle_def)

lemma react_window:
  assumes "int (length (activeTasks x)) \<le> max limit 0"
  shows "int (length (activeTasks (react w limit lg x ev))) \<le> max limit 0"
proof (cases ev)
  case Main
  with assms show ?thesis
    by (auto simp add: react_def mainTurn_def pushPromise_def
        split: stage.splits list.splits option.splits prod.splits ending.splits)
next
  case (Resume p)
  show ?thesis
  proof (cases "map_of (activeTasks x) p")
    case None
    with assms Resume show ?thesis by (simp add: react_def taskTurn_def)
  next
    case (Some pr)
    show ?thesis
    proof (cases pr)
      case (Unsettled tk)
      obtain e s1 where turn: "resume w lg tk (shared x) = (e, s1)"
        by (cases "resume w lg tk (shared x)")
      have "length (settle p e (activeTasks x)) \<le> length (activeTasks x)"
        by (rule settle_length)
      with assms have "int (length (settle p e (activeTasks x))) \<le> max limit 0" by linarith
      with Resume Some Unsettled turn show ?thesis
        by (simp add: react_def taskTurn_def)
    next
      case (RejectedWith err)
      with assms Resume Some show ?thesis by (simp add: react_def taskTurn_def)
    qed
  qed
qed

lemma run_window:
  "int (length (activeTasks x)) \<le> max limit 0 \<Longrightarrow>
   int (length (activeTasks (foldl (react w limit lg) x evs))) \<le> max limit 0"
  by (induction evs arbitrary: x) (simp_all add: react_window)

section \<open>Properties: giving up after the retries\<close>

lemma setTranslated_length: "length (results (setTranslated i t s)) = length (results s)"
  by (simp add: setTranslated_def)

lemma setTranslated_nth:
  "j < length (results s) \<Longrightarrow>
   translated (results (setTranslated i t s) ! j) = (if j = i then t else translated (results s ! j))"
  by (simp add: setTranslated_def nth_list_update)

lemma markEmpty_empties:
  assumes "\<forall>i \<in> set is. i < length (results s)"
  shows "\<exists>s'. markEmpty is s = (None, s') \<and> sent s' = sent s \<and>
           length (results s') = length (results s) \<and>
           (\<forall>j < length (results s).
              translated (results s' ! j) = (if j \<in> set is then [] else translated (results s ! j)))"
  using assms
proof (induction "is" arbitrary: s)
  case Nil
  show ?case by simp
next
  case (Cons i "is")
  let ?s1 = "setTranslated i [] s"
  from Cons.prems have here: "i < length (results s)" by simp
  from Cons.prems have "\<forall>i \<in> set is. i < length (results ?s1)"
    by (simp add: setTranslated_length)
  from Cons.IH [OF this] obtain s' where
    rest: "markEmpty is ?s1 = (None, s')" and
    sent: "sent s' = sent ?s1" and
    len: "length (results s') = length (results ?s1)" and
    cells: "\<forall>j < length (results ?s1).
              translated (results s' ! j) = (if j \<in> set is then [] else translated (results ?s1 ! j))"
    by blast
  have "markEmpty (i # is) s = (None, s')" using here rest by simp
  moreover have "sent s' = sent s" using sent by (simp add: setTranslated_def)
  moreover have "length (results s') = length (results s)"
    using len by (simp add: setTranslated_length)
  moreover have "\<forall>j < length (results s).
      translated (results s' ! j) = (if j \<in> set (i # is) then [] else translated (results s ! j))"
    using cells by (simp add: setTranslated_length setTranslated_nth)
  ultimately show ?case by blast
qed

lemma attemptState_shift:
  "attemptState w lg batch s (Suc k) =
   attemptState w lg batch (backoff (snd (tryBlock w lg batch s))) k"
  by (induction k) simp_all

lemma processLoop_exhausts:
  assumes never: "\<forall>t. \<not> aborted w t"
  shows "retryCount + n = maxRetries \<Longrightarrow>
         (\<forall>k \<le> n. attemptFails w lg batch (attemptState w lg batch s k)) \<Longrightarrow>
         processLoop w lg batch retryCount s =
           markEmpty (indices batch) (snd (tryBlock w lg batch (attemptState w lg batch s n)))"
proof (induction n arbitrary: retryCount s)
  case 0
  from "0.prems"(2) have "attemptFails w lg batch s" by simp
  then obtain err s1 where attempt: "tryBlock w lg batch s = (Some err, s1)" and "\<not> isAbort err"
    by (cases "tryBlock w lg batch s") (auto simp add: attemptFails_def split: option.splits)
  moreover from "0.prems"(1) have "retryCount = maxRetries" by simp
  ultimately show ?case
    using never by (simp add: processLoop.simps [of w lg batch maxRetries s])
next
  case (Suc n)
  from Suc.prems(2) have "attemptFails w lg batch (attemptState w lg batch s 0)" by blast
  then have "attemptFails w lg batch s" by simp
  then obtain err s1 where attempt: "tryBlock w lg batch s = (Some err, s1)" and noAbort: "\<not> isAbort err"
    by (cases "tryBlock w lg batch s") (auto simp add: attemptFails_def split: option.splits)
  from Suc.prems(1) have more: "\<not> Suc retryCount > maxRetries" by simp
  have later: "\<forall>k \<le> n. attemptFails w lg batch (attemptState w lg batch (backoff s1) k)"
  proof (intro allI impI)
    fix k assume "k \<le> n"
    then have "attemptFails w lg batch (attemptState w lg batch s (Suc k))"
      using Suc.prems(2) by (meson Suc_le_mono)
    then show "attemptFails w lg batch (attemptState w lg batch (backoff s1) k)"
      using attempt by (simp only: attemptState_shift snd_conv)
  qed
  from Suc.prems(1) have count: "Suc retryCount + n = maxRetries" by simp
  have "processLoop w lg batch retryCount s = processLoop w lg batch (Suc retryCount) (backoff s1)"
    using never attempt noAbort more
    by (simp add: processLoop.simps [of w lg batch retryCount s])
  also have "\<dots> = markEmpty (indices batch)
                     (snd (tryBlock w lg batch (attemptState w lg batch (backoff s1) n)))"
    by (rule Suc.IH [OF count later])
  also have "attemptState w lg batch (backoff s1) n = attemptState w lg batch s (Suc n)"
    using attempt by (simp only: attemptState_shift snd_conv)
  finally show ?case .
qed

lemma backoff_originals: "map original (results (backoff s)) = map original (results s)"
  by (simp add: backoff_def)

lemma attemptState_originals:
  "map original (results (attemptState w lg batch s k)) = map original (results s)"
proof (induction k)
  case 0
  show ?case by simp
next
  case (Suc k)
  obtain r s1 where "tryBlock w lg batch (attemptState w lg batch s k) = (r, s1)"
    by (cases "tryBlock w lg batch (attemptState w lg batch s k)")
  from tryBlock_originals [OF this] this Suc show ?case
    by (simp add: backoff_originals)
qed

text \<open>
  The part of claim C3 that the code keeps.  If the signal is never aborted and each of
  the 21 attempts of a batch (the first one and the 20 retries) fails with an error that
  the \<open>catch\<close> block does not take for a cancellation, then \<open>processBatch\<close> ends without
  throwing, right after the failure that takes the retry count above 20: every fragment
  of the batch has the empty string as its translation, the container keeps its length
  and its originals, and nothing is sent after the last failed attempt.
\<close>

lemma processBatch_gives_up:
  assumes never: "\<forall>t. \<not> aborted w t"
    and fails: "\<forall>k \<le> maxRetries. attemptFails w lg batch (attemptState w lg batch s k)"
    and inside: "\<forall>i \<in> set (indices batch). i < length (results s)"
  shows "\<exists>s'. processBatch w lg batch s = (None, s') \<and>
           (\<forall>i \<in> set (indices batch). translated (results s' ! i) = []) \<and>
           length (results s') = length (results s) \<and>
           map original (results s') = map original (results s) \<and>
           sent s' = sent (snd (tryBlock w lg batch (attemptState w lg batch s maxRetries)))"
proof -
  let ?last = "snd (tryBlock w lg batch (attemptState w lg batch s maxRetries))"
  have loop: "processLoop w lg batch 0 s = markEmpty (indices batch) ?last"
    using processLoop_exhausts [OF never, of 0 maxRetries lg batch s] fails by simp
  obtain r where final: "tryBlock w lg batch (attemptState w lg batch s maxRetries) = (r, ?last)"
    by (cases "tryBlock w lg batch (attemptState w lg batch s maxRetries)") simp
  have originals: "map original (results ?last) = map original (results s)"
    using tryBlock_originals [OF final] by (simp add: attemptState_originals)
  then have "length (results ?last) = length (results s)" by (metis length_map)
  with inside have "\<forall>i \<in> set (indices batch). i < length (results ?last)" by simp
  from markEmpty_empties [OF this] obtain s' where
    marked: "markEmpty (indices batch) ?last = (None, s')" and
    sent: "sent s' = sent ?last" and
    len: "length (results s') = length (results ?last)" and
    cells: "\<forall>j < length (results ?last).
              translated (results s' ! j) =
                (if j \<in> set (indices batch) then [] else translated (results ?last ! j))"
    by blast
  have task: "processBatch w lg batch s = (None, s')"
    using never loop marked by (simp add: processBatch_def)
  have empties: "\<forall>i \<in> set (indices batch). translated (results s' ! i) = []"
    using cells inside \<open>length (results ?last) = length (results s)\<close> by simp
  have keep: "map original (results s') = map original (results s)"
    using markEmpty_originals [OF marked] originals by simp
  from task empties len \<open>length (results ?last) = length (results s)\<close> keep sent
  show ?thesis by simp
qed

lemma processBatch_gives_up_example:
  "\<exists>s'. processBatch
           \<lparr>server = (\<lambda>k req. Inl (Error (js ''Error'') (js ''Chat completion failed: 500''))),
             aborted = (\<lambda>t. False), JSON_parse = (\<lambda>s. None)\<rparr>
           Zh \<lparr>indices = [0], texts = [js ''Hello'']\<rparr> (initialRun [js ''Hello'']) = (None, s') \<and>
         translated (results s' ! 0) = [] \<and>
         sent s' = replicate (Suc maxRetries) (TextRequest (js ''Hello''))"
proof -
  let ?w = "\<lparr>server = (\<lambda>k req. Inl (Error (js ''Error'') (js ''Chat completion failed: 500''))),
             aborted = (\<lambda>t. False), JSON_parse = (\<lambda>s. None)\<rparr>"
  let ?b = "\<lparr>indices = [0], texts = [js ''Hello'']\<rparr>"
  let ?s = "initialRun [js ''Hello'']"
  have other: "\<not> isAbort (Error (js ''Error'') (js ''Chat completion failed: 500''))"
    by (simp add: isAbort_def js_def startsWith_def)
  have attempt: "tryBlock ?w Zh ?b s
       = (Some (Error (js ''Error'') (js ''Chat completion failed: 500'')),
          s\<lparr>sent := sent s @ [TextRequest (js ''Hello'')], clock := Suc (clock s)\<rparr>)" for s
    by (simp add: tryBlock_def translateBatch_def translateText_def chatCompletion_def)
  have requests: "sent (attemptState ?w Zh ?b s k) = sent s @ replicate k (TextRequest (js ''Hello''))"
    for s k
    by (induction k) (simp_all add: attempt backoff_def replicate_append_same)
  have never: "\<forall>t. \<not> aborted ?w t" by simp
  have fails: "\<forall>k \<le> maxRetries. attemptFails ?w Zh ?b (attemptState ?w Zh ?b ?s k)"
    by (simp add: attemptFails_def attempt other)
  have inside: "\<forall>i \<in> set (indices ?b). i < length (results ?s)"
    by (simp add: initialRun_def)
  have last: "sent (snd (tryBlock ?w Zh ?b (attemptState ?w Zh ?b ?s maxRetries)))
       = replicate (Suc maxRetries) (TextRequest (js ''Hello''))"
    by (simp add: attempt requests initialRun_def replicate_append_same)
  from processBatch_gives_up [OF never fails inside] last
  show ?thesis by auto
qed

text \<open>
  The same in a whole run: the call of \<open>translateTextByParagraph\<close> on one paragraph, with a
  service that fails every request, sends 21 requests, waits 20 times, and returns the
  container with the empty string for the paragraph.
\<close>

lemma retry_turns:
  assumes "retryCount < maxRetries"
    and "activeTasks x = [(0, Unsettled (Task \<lparr>indices = [0], texts = [js ''Hello'']\<rparr> retryCount (AwaitSingle k)))]"
  shows "foldl (react \<lparr>server = (\<lambda>k req. Inl (Error (js ''Error'') (js ''Chat completion failed: 500''))),
             aborted = (\<lambda>t. False), JSON_parse = (\<lambda>s. None)\<rparr> limit Zh) x [Resume 0, Resume 0] =
           x\<lparr>shared := (shared x)\<lparr>sent := sent (shared x) @ [TextRequest (js ''Hello'')],
                                  clock := Suc (Suc (clock (shared x)))\<rparr>,
             activeTasks := [(0, Unsettled (Task \<lparr>indices = [0], texts = [js ''Hello'']\<rparr> (Suc retryCount)
                (AwaitSingle (length (sent (shared x))))))]\<rparr>"
proof -
  have other: "\<not> isAbort (Error (js ''Error'') (js ''Chat completion failed: 500''))"
    by (simp add: isAbort_def js_def startsWith_def)
  show ?thesis using assms other
    by (simp add: react_def taskTurn_def resume_def catchBlock_def settle_def
        loopHead_def beginTranslateBatch_def sendRequest_def)
qed

lemma retries_turns:
  "retryCount + n \<le> maxRetries \<Longrightarrow>
   activeTasks x = [(0, Unsettled (Task \<lparr>indices = [0], texts = [js ''Hello'']\<rparr> retryCount (AwaitSingle k)))] \<Longrightarrow>
   \<exists>k'. foldl (react \<lparr>server = (\<lambda>k req. Inl (Error (js ''Error'') (js ''Chat completion failed: 500''))),
             aborted = (\<lambda>t. False), JSON_parse = (\<lambda>s. None)\<rparr> limit Zh) x
          (concat (replicate n [Resume 0, Resume 0])) =
        x\<lparr>shared := (shared x)\<lparr>sent := sent (shared x) @ replicate n (TextRequest (js ''Hello'')),
                               clock := clock (shared x) + 2 * n\<rparr>,
          activeTasks := [(0, Unsettled (Task \<lparr>indices = [0], texts = [js ''Hello'']\<rparr> (retryCount + n)
                (AwaitSingle k')))]\<rparr>"
proof (induction n arbitrary: x retryCount k)
  case 0
  then show ?case by (intro exI [of _ k]) simp
next
  case (Suc n)
  let ?w = "\<lparr>server = (\<lambda>k req. Inl (Error (js ''Error'') (js ''Chat completion failed: 500''))),
             aborted = (\<lambda>t. False), JSON_parse = (\<lambda>s. None)\<rparr>"
  let ?b = "\<lparr>indices = [0], texts = [js ''Hello'']\<rparr>"
  let ?x1 = "x\<lparr>shared := (shared x)\<lparr>sent := sent (shared x) @ [TextRequest (js ''Hello'')],
                                  clock := Suc (Suc (clock (shared x)))\<rparr>,
             activeTasks := [(0, Unsettled (Task ?b (Suc retryCount)
                (AwaitSingle (length (sent (shared x))))))]\<rparr>"
  from Suc.prems have less: "retryCount < maxRetries" by simp
  have first: "foldl (react ?w limit Zh) x [Resume 0, Resume 0] = ?x1"
    by (rule retry_turns [OF less Suc.prems(2)])
  from Suc.prems have count: "Suc retryCount + n \<le> maxRetries" by simp
  have "activeTasks ?x1 = [(0, Unsettled (Task ?b (Suc retryCount) (AwaitSingle (length (sent (shared x))))))]"
    by simp
  from Suc.IH [OF count this] obtain k' where
    rest: "foldl (react ?w limit Zh) ?x1 (concat (replicate n [Resume 0, Resume 0])) =
        ?x1\<lparr>shared := (shared ?x1)\<lparr>sent := sent (shared ?x1) @ replicate n (TextRequest (js ''Hello'')),
                               clock := clock (shared ?x1) + 2 * n\<rparr>,
          activeTasks := [(0, Unsettled (Task ?b (Suc retryCount + n) (AwaitSingle k')))]\<rparr>"
    by blast
  have "foldl (react ?w limit Zh) x (concat (replicate (Suc n) [Resume 0, Resume 0])) =
        foldl (react ?w limit Zh) (foldl (react ?w limit Zh) x [Resume 0, Resume 0])
          (concat (replicate n [Resume 0, Resume 0]))"
    by simp
  also have "\<dots> = foldl (react ?w limit Zh) ?x1 (concat (replicate n [Resume 0, Resume 0]))"
    by (simp only: first)
  also note rest
  finally show ?case
    by (intro exI [of _ k']) (simp add: replicate_append_same)
qed

lemma gives_up_run_example:
  "translateTextByParagraph
     \<lparr>server = (\<lambda>k req. Inl (Error (js ''Error'') (js ''Chat completion failed: 500''))),
       aborted = (\<lambda>t. False), JSON_parse = (\<lambda>s. None)\<rparr>
     \<lparr>concurrency = None, maxTextLengthPerRequest = None, maxParagraphsPerRequest = None\<rparr>
     [js ''Hello''] None
     ([Main, Main, Main] @ concat (replicate maxRetries [Resume 0, Resume 0]) @ [Resume 0, Main])
   = (Some (Inr [\<lparr>original = js ''Hello'', translated = []\<rparr>]),
      \<lparr>results = [\<lparr>original = js ''Hello'', translated = []\<rparr>],
        sent = replicate (Suc maxRetries) (TextRequest (js ''Hello'')),
        clock = Suc (2 * maxRetries), notified = []\<rparr>)"
proof -
  let ?w = "\<lparr>server = (\<lambda>k req. Inl (Error (js ''Error'') (js ''Chat completion failed: 500''))),
             aborted = (\<lambda>t. False), JSON_parse = (\<lambda>s. None)\<rparr>"
  let ?c = "\<lparr>concurrency = None, maxTextLengthPerRequest = None, maxParagraphsPerRequest = None\<rparr>"
  let ?b = "\<lparr>indices = [0], texts = [js ''Hello'']\<rparr>"
  let ?ps = "[js ''Hello'']"
  let ?x1 = "\<lparr>shared = (initialRun ?ps)\<lparr>sent := [TextRequest (js ''Hello'')]\<rparr>,
              waitingBatches = [], activeTasks = [(0, Unsettled (Task ?b 0 (AwaitSingle 0)))],
              nextPromise = 1, stage = AwaitAll\<rparr>"
  have other: "\<not> isAbort (Error (js ''Error'') (js ''Chat completion failed: 500''))"
    by (simp add: isAbort_def js_def startsWith_def)
  have plan: "createBatches (maxBatchSize ?c) (maxTextLen ?c) ?ps = [?b]"
    by (simp add: createBatches_def planLoop.simps emptyBatch_def js_def maxBatchSize_def
        maxTextLen_def orDefault_def)
  have lg: "detectTargetLang ?ps None = Zh"
    by (simp add: detectTargetLang_def js_def)
  have limit: "concurrencyLimit ?c = 5" by (simp add: concurrencyLimit_def orDefault_def)
  have start: "foldl (react ?w 5 Zh) (startExecution ?c ?ps) [Main, Main, Main] = ?x1"
    by (simp add: startExecution_def plan initialRun_def react_def mainTurn_def
        enterProcessBatch_def loopHead_def beginTranslateBatch_def sendRequest_def pushPromise_def)
  have "activeTasks ?x1 = [(0, Unsettled (Task ?b 0 (AwaitSingle 0)))]" by simp
  from retries_turns [of 0 maxRetries ?x1 0, OF _ this, of 5] obtain k' where
    middle: "foldl (react ?w 5 Zh) ?x1 (concat (replicate maxRetries [Resume 0, Resume 0])) =
        ?x1\<lparr>shared := (shared ?x1)\<lparr>sent := sent (shared ?x1) @ replicate maxRetries (TextRequest (js ''Hello'')),
                               clock := clock (shared ?x1) + 2 * maxRetries\<rparr>,
          activeTasks := [(0, Unsettled (Task ?b (0 + maxRetries) (AwaitSingle k')))]\<rparr>"
    by auto
  let ?x2 = "?x1\<lparr>shared := (shared ?x1)\<lparr>sent := sent (shared ?x1) @ replicate maxRetries (TextRequest (js ''Hello'')),
                               clock := clock (shared ?x1) + 2 * maxRetries\<rparr>,
          activeTasks := [(0, Unsettled (Task ?b (0 + maxRetries) (AwaitSingle k')))]\<rparr>"
  have last: "foldl (react ?w 5 Zh) ?x2 [Resume 0, Main] =
     \<lparr>shared = \<lparr>results = [\<lparr>original = js ''Hello'', translated = []\<rparr>],
        sent = replicate (Suc maxRetries) (TextRequest (js ''Hello'')),
        clock = Suc (2 * maxRetries), notified = []\<rparr>,
       waitingBatches = [], activeTasks = [], nextPromise = 1, stage = HasReturned\<rparr>"
    using other
    by (simp add: react_def taskTurn_def resume_def catchBlock_def settle_def mainTurn_def
        initialRun_def setTranslated_def)
  have "foldl (react ?w 5 Zh) (startExecution ?c ?ps)
          ([Main, Main, Main] @ concat (replicate maxRetries [Resume 0, Resume 0]) @ [Resume 0, Main])
        = foldl (react ?w 5 Zh) ?x2 [Resume 0, Main]"
    by (simp only: foldl_append start middle)
  with last show ?thesis
    by (simp add: translateTextByParagraph_def Let_def lg limit settled_def del: foldl_append foldl_Cons)
qed

text \<open>
  Claim C3, at an input where the code departs from it.  The service answers the request
  of a batch with status 502 and the body \<open>Aborted by upstream\<close>, so that
  \<open>chatCompletion\<close> throws \<open>Chat completion failed: 502 Aborted by upstream\<close>: a transport
  failure, with the signal never aborted.  The \<open>catch\<close> block finds \<open>Abort\<close> in the message,
  takes the error for a cancellation and rethrows it.  One request was sent; there is no
  retry and no empty translation in place of a result: the error leaves \<open>processBatch\<close>,
  and the call of \<open>translateTextByParagraph\<close> on the one paragraph throws it.
\<close>

theorem transport_error_with_Abort_not_retried:
  "processBatch
     \<lparr>server = (\<lambda>k req. Inl (Error (js ''Error'')
                  (js ''Chat completion failed: 502 Aborted by upstream''))),
       aborted = (\<lambda>t. False), JSON_parse = (\<lambda>s. None)\<rparr>
     Zh \<lparr>indices = [0], texts = [js ''Hello'']\<rparr> (initialRun [js ''Hello''])
   = (Some (Error (js ''Error'') (js ''Chat completion failed: 502 Aborted by upstream'')),
      (initialRun [js ''Hello''])\<lparr>sent := [TextRequest (js ''Hello'')], clock := 1\<rparr>) \<and>
   translateTextByParagraph
     \<lparr>server = (\<lambda>k req. Inl (Error (js ''Error'')
                  (js ''Chat completion failed: 502 Aborted by upstream''))),
       aborted = (\<lambda>t. False), JSON_parse = (\<lambda>s. None)\<rparr>
     \<lparr>concurrency = None, maxTextLengthPerRequest = None, maxParagraphsPerRequest = None\<rparr>
     [js ''Hello''] None [Main, Main, Main, Resume 0, Main]
   = (Some (Inl (Error (js ''Error'') (js ''Chat completion failed: 502 Aborted by upstream''))),
      (initialRun [js ''Hello''])\<lparr>sent := [TextRequest (js ''Hello'')], clock := 1\<rparr>)"
proof -
  let ?w = "\<lparr>server = (\<lambda>k req. Inl (Error (js ''Error'')
                  (js ''Chat completion failed: 502 Aborted by upstream''))),
       aborted = (\<lambda>t. False), JSON_parse = (\<lambda>s. None)\<rparr>"
  let ?b = "\<lparr>indices = [0], texts = [js ''Hello'']\<rparr>"
  let ?s = "initialRun [js ''Hello'']"
  let ?c = "\<lparr>concurrency = None, maxTextLengthPerRequest = None, maxParagraphsPerRequest = None\<rparr>"
  let ?ps = "[js ''Hello'']"
  have cancelled: "isAbort (Error (js ''Error'')
      (js ''Chat completion failed: 502 Aborted by upstream''))"
    by (simp add: isAbort_def js_def startsWith_def)
  have attempt: "tryBlock ?w Zh ?b ?s =
     (Some (Error (js ''Error'') (js ''Chat completion failed: 502 Aborted by upstream'')),
      ?s\<lparr>sent := [TextRequest (js ''Hello'')], clock := 1\<rparr>)"
    by (simp add: tryBlock_def translateBatch_def translateText_def chatCompletion_def
        initialRun_def)
  have task: "processBatch ?w Zh ?b ?s =
     (Some (Error (js ''Error'') (js ''Chat completion failed: 502 Aborted by upstream'')),
      ?s\<lparr>sent := [TextRequest (js ''Hello'')], clock := 1\<rparr>)"
    using attempt cancelled
    by (simp add: processBatch_def processLoop.simps [of ?w Zh ?b 0 ?s])
  have plan: "createBatches (maxBatchSize ?c) (maxTextLen ?c) ?ps = [?b]"
    by (simp add: createBatches_def planLoop.simps emptyBatch_def js_def maxBatchSize_def
        maxTextLen_def orDefault_def)
  have lg: "detectTargetLang ?ps None = Zh"
    by (simp add: detectTargetLang_def js_def)
  have limit: "concurrencyLimit ?c = 5" by (simp add: concurrencyLimit_def orDefault_def)
  have call: "translateTextByParagraph ?w ?c ?ps None [Main, Main, Main, Resume 0, Main] =
     (Some (Inl (Error (js ''Error'') (js ''Chat completion failed: 502 Aborted by upstream''))),
      ?s\<lparr>sent := [TextRequest (js ''Hello'')], clock := 1\<rparr>)"
    using cancelled
    by (simp add: translateTextByParagraph_def startExecution_def plan lg limit initialRun_def
        react_def mainTurn_def taskTurn_def enterProcessBatch_def loopHead_def
        beginTranslateBatch_def sendRequest_def resume_def catchBlock_def
        settle_def pushPromise_def settled_def)
  from task call show ?thesis by (rule conjI)
qed

section \<open>Properties: the failure marker\<close>

text \<open>
  An attempt whose returned texts hold a failure marker throws a content error and leaves
  the result container as it was.
\<close>

lemma tryBlock_marker:
  assumes "translateBatch w (texts batch) lg s = (Inr translatedTexts, s1)"
    and "find failureMarker translatedTexts = Some t"
  shows "tryBlock w lg batch s =
           (Some (Error (js ''Error'') (js ''Content verification failed: '' @ t)), s1) \<and>
         results s1 = results s"
  using assms translateBatch_results [OF assms(1)]
  by (simp add: tryBlock_def)

text \<open>
  Claim C7, at an input where the code departs from it.  The service answers the single
  text of a batch with \<open>Translation failed: Aborted\<close>.  The text matches the failure
  marker, so the attempt throws \<open>Content verification failed: Translation failed: Aborted\<close>;
  the \<open>catch\<close> block finds \<open>Abort\<close> in that message, takes the error for a cancellation
  and rethrows it.  The signal was never aborted, one request was sent, there is no retry,
  and the error leaves \<open>processBatch\<close>.
\<close>

theorem failure_marker_with_Abort_not_retried:
  "processBatch
     \<lparr>server = (\<lambda>k req. Inr (js ''Translation failed: Aborted'')), aborted = (\<lambda>t. False),
       JSON_parse = (\<lambda>s. None)\<rparr>
     Zh \<lparr>indices = [0], texts = [js ''Hello'']\<rparr> (initialRun [js ''Hello''])
   = (Some (Error (js ''Error'') (js ''Content verification failed: Translation failed: Aborted'')),
      (initialRun [js ''Hello''])\<lparr>sent := [TextRequest (js ''Hello'')], clock := 1\<rparr>)"
proof -
  let ?w = "\<lparr>server = (\<lambda>k req. Inr (js ''Translation failed: Aborted'')), aborted = (\<lambda>t. False),
       JSON_parse = (\<lambda>s. None)\<rparr>"
  let ?b = "\<lparr>indices = [0], texts = [js ''Hello'']\<rparr>"
  let ?s = "initialRun [js ''Hello'']"
  have marker: "failureMarker (js ''Translation failed: Aborted'')"
    by (simp add: js_def failureMarkerAt_def startsWithIgnoreCase_def canonicalize_def
        isSpace_def startsWith_def)
  have cancelled: "isAbort (Error (js ''Error'')
      (js ''Content verification failed: '' @ js ''Translation failed: Aborted''))"
    by (simp add: isAbort_def js_def startsWith_def)
  have attempt: "tryBlock ?w Zh ?b ?s =
     (Some (Error (js ''Error'')
        (js ''Content verification failed: '' @ js ''Translation failed: Aborted'')),
      ?s\<lparr>sent := [TextRequest (js ''Hello'')], clock := 1\<rparr>)"
    using marker
    by (simp add: tryBlock_def translateBatch_def translateText_def chatCompletion_def
        initialRun_def)
  have message: "js ''Content verification failed: '' @ js ''Translation failed: Aborted''
     = js ''Content verification failed: Translation failed: Aborted''"
    by (simp add: js_def)
  show ?thesis
    using attempt cancelled
    by (simp add: processBatch_def processLoop.simps [of ?w Zh ?b 0 ?s] message)
qed

text \<open>The call of \<open>translateTextByParagraph\<close> on this one paragraph throws the same error.\<close>

lemma failure_marker_with_Abort_rejects_run:
  "translateTextByParagraph
     \<lparr>server = (\<lambda>k req. Inr (js ''Translation failed: Aborted'')), aborted = (\<lambda>t. False),
       JSON_parse = (\<lambda>s. None)\<rparr>
     \<lparr>concurrency = None, maxTextLengthPerRequest = None, maxParagraphsPerRequest = None\<rparr>
     [js ''Hello''] None [Main, Main, Main, Resume 0, Main]
   = (Some (Inl (Error (js ''Error'') (js ''Content verification failed: Translation failed: Aborted''))),
      (initialRun [js ''Hello''])\<lparr>sent := [TextRequest (js ''Hello'')], clock := 1\<rparr>)"
proof -
  let ?c = "\<lparr>concurrency = None, maxTextLengthPerRequest = None, maxParagraphsPerRequest = None\<rparr>"
  let ?ps = "[js ''Hello'']"
  have marker: "failureMarker (js ''Translation failed: Aborted'')"
    by (simp add: js_def failureMarkerAt_def startsWithIgnoreCase_def canonicalize_def
        isSpace_def startsWith_def)
  have cancelled: "isAbort (Error (js ''Error'')
      (js ''Content verification failed: '' @ js ''Translation failed: Aborted''))"
    by (simp add: isAbort_def js_def startsWith_def)
  have message: "js ''Content verification failed: '' @ js ''Translation failed: Aborted''
     = js ''Content verification failed: Translation failed: Aborted''"
    by (simp add: js_def)
  have plan: "createBatches (maxBatchSize ?c) (maxTextLen ?c) ?ps =
      [\<lparr>indices = [0], texts = [js ''Hello'']\<rparr>]"
    by (simp add: createBatches_def planLoop.simps emptyBatch_def js_def maxBatchSize_def
        maxTextLen_def orDefault_def)
  have lg: "detectTargetLang ?ps None = Zh"
    by (simp add: detectTargetLang_def js_def)
  have limit: "concurrencyLimit ?c = 5" by (simp add: concurrencyLimit_def orDefault_def)
  show ?thesis
    using cancelled marker
    by (simp add: translateTextByParagraph_def startExecution_def plan lg limit initialRun_def
        react_def mainTurn_def taskTurn_def enterProcessBatch_def loopHead_def
        beginTranslateBatch_def sendRequest_def resume_def catchBlock_def validateAndWrite_def
        settle_def pushPromise_def settled_def message)
qed

section \<open>Properties: a task on its own\<close>

text \<open>
  The turns of a task, taken with no other task in between, end as \<open>processBatch\<close> above
  does, in the same state: the same requests at the same request numbers, the same reads
  of the signal, the same writes and callbacks.
\<close>

lemma one_turn: "resume w lg tk s = c \<Longrightarrow> alone w lg (Continues tk, s) c"
  by (auto intro: alone.intros)

lemma turn_then:
  "resume w lg tk s = c \<Longrightarrow> alone w lg c d \<Longrightarrow> alone w lg (Continues tk, s) d"
  by (auto intro: alone.intros)

lemma alone_trans: "alone w lg a b \<Longrightarrow> alone w lg b c \<Longrightarrow> alone w lg a c"
  by (induction rule: alone.induct) (auto intro: alone.intros)

lemma attempt_after_translate:
  "(case translateBatch w (texts batch) lg s of
      (Inl e, s1) \<Rightarrow> catchBlock batch retryCount e s1
    | (Inr translatedTexts, s1) \<Rightarrow> validateAndWrite w batch retryCount translatedTexts s1)
   = (case tryBlock w lg batch s of
        (None, s1) \<Rightarrow> (Fulfilled, s1)
      | (Some err, s1) \<Rightarrow> catchBlock batch retryCount err s1)"
  by (simp add: tryBlock_def validateAndWrite_def
      split: prod.splits sum.splits option.splits)

lemma fallback_alone:
  "alone w lg (nextFallback w batch retryCount collected todo s)
     (case translateSequential w todo lg s of
        (Inl e, s1) \<Rightarrow> catchBlock batch retryCount e s1
      | (Inr rs, s1) \<Rightarrow> validateAndWrite w batch retryCount (collected @ rs) s1)"
proof (induction todo arbitrary: collected s)
  case Nil
  show ?case by (simp add: nextFallback_def alone.here)
next
  case (Cons t rest)
  show ?case
  proof (cases "aborted w (clock s)")
    case True
    then show ?thesis
      by (simp add: nextFallback_def sendRequest_def translateText_def chatCompletion_def
          alone.here)
  next
    case False
    let ?s1 = "s\<lparr>sent := sent s @ [TextRequest t]\<rparr>"
    let ?s2 = "s\<lparr>sent := sent s @ [TextRequest t], clock := Suc (clock s)\<rparr>"
    have started: "nextFallback w batch retryCount collected (t # rest) s =
        (Continues (Task batch retryCount (AwaitFallback (length (sent s)) collected t rest)), ?s1)"
      using False by (simp add: nextFallback_def sendRequest_def)
    have call: "translateText w t lg s = (server w (length (sent s)) (TextRequest t), ?s2)"
      using False by (simp add: translateText_def chatCompletion_def)
    have tick: "?s1\<lparr>clock := Suc (clock ?s1)\<rparr> = ?s2" by simp
    show ?thesis
    proof (cases "server w (length (sent s)) (TextRequest t)")
      case (Inl e)
      have "resume w lg (Task batch retryCount (AwaitFallback (length (sent s)) collected t rest)) ?s1
              = catchBlock batch retryCount e ?s2"
        using Inl by (simp add: resume_def)
      then have "alone w lg (nextFallback w batch retryCount collected (t # rest) s)
              (catchBlock batch retryCount e ?s2)"
        unfolding started by (rule one_turn)
      with call Inl show ?thesis by simp
    next
      case (Inr r)
      have next_turn: "resume w lg (Task batch retryCount (AwaitFallback (length (sent s)) collected t rest)) ?s1
              = nextFallback w batch retryCount (collected @ [r]) rest ?s2"
        using Inr by (simp add: resume_def)
      have ih: "alone w lg (nextFallback w batch retryCount (collected @ [r]) rest ?s2)
         (case translateSequential w rest lg ?s2 of
            (Inl e, s1) \<Rightarrow> catchBlock batch retryCount e s1
          | (Inr rs, s1) \<Rightarrow> validateAndWrite w batch retryCount ((collected @ [r]) @ rs) s1)"
        by (rule Cons.IH)
      have "alone w lg (nextFallback w batch retryCount collected (t # rest) s)
         (case translateSequential w rest lg ?s2 of
            (Inl e, s1) \<Rightarrow> catchBlock batch retryCount e s1
          | (Inr rs, s1) \<Rightarrow> validateAndWrite w batch retryCount ((collected @ [r]) @ rs) s1)"
        unfolding started by (rule turn_then [OF next_turn ih])
      with call Inr show ?thesis
        by (simp split: prod.splits sum.splits)
    qed
  qed
qed

lemma translate_alone:
  "alone w lg (beginTranslateBatch w lg batch retryCount s)
     (case translateBatch w (texts batch) lg s of
        (Inl e, s1) \<Rightarrow> catchBlock batch retryCount e s1
      | (Inr translatedTexts, s1) \<Rightarrow> validateAndWrite w batch retryCount translatedTexts s1)"
proof (cases "length (texts batch) = 0")
  case True
  then show ?thesis
    by (simp add: beginTranslateBatch_def translateBatch_def alone.here)
next
  case some: False
  show ?thesis
  proof (cases "aborted w (clock s)")
    case True
    with some show ?thesis
      by (simp add: beginTranslateBatch_def translateBatch_def sendRequest_def
          translateText_def chatCompletion_def alone.here)
  next
    case False
    show ?thesis
    proof (cases "length (texts batch) = 1")
      case True
      let ?req = "TextRequest (texts batch ! 0)"
      let ?s1 = "s\<lparr>sent := sent s @ [?req]\<rparr>"
      let ?s2 = "s\<lparr>sent := sent s @ [?req], clock := Suc (clock s)\<rparr>"
      have started: "beginTranslateBatch w lg batch retryCount s =
          (Continues (Task batch retryCount (AwaitSingle (length (sent s)))), ?s1)"
        using True False by (simp add: beginTranslateBatch_def sendRequest_def)
      have turn: "resume w lg (Task batch retryCount (AwaitSingle (length (sent s)))) ?s1 =
          (case server w (length (sent s)) ?req of
             Inl e \<Rightarrow> catchBlock batch retryCount e ?s2
           | Inr r \<Rightarrow> validateAndWrite w batch retryCount [r] ?s2)"
        by (simp add: resume_def Let_def)
      have call: "(case translateBatch w (texts batch) lg s of
                     (Inl e, s1) \<Rightarrow> catchBlock batch retryCount e s1
                   | (Inr translatedTexts, s1) \<Rightarrow>
                       validateAndWrite w batch retryCount translatedTexts s1) =
          (case server w (length (sent s)) ?req of
             Inl e \<Rightarrow> catchBlock batch retryCount e ?s2
           | Inr r \<Rightarrow> validateAndWrite w batch retryCount [r] ?s2)"
        using True False
        by (simp add: translateBatch_def translateText_def chatCompletion_def split: sum.splits)
      show ?thesis
        unfolding started call using turn by (rule one_turn)
    next
      case many: False
      let ?req = "ArrayRequest (texts batch) lg"
      let ?s1 = "s\<lparr>sent := sent s @ [?req]\<rparr>"
      let ?s2 = "s\<lparr>sent := sent s @ [?req], clock := Suc (clock s)\<rparr>"
      let ?fallback = "case translateSequential w (texts batch) lg ?s2 of
            (Inl e, s1) \<Rightarrow> catchBlock batch retryCount e s1
          | (Inr rs, s1) \<Rightarrow> validateAndWrite w batch retryCount rs s1"
      have started: "beginTranslateBatch w lg batch retryCount s =
          (Continues (Task batch retryCount (AwaitBulk (length (sent s)))), ?s1)"
        using some many False by (simp add: beginTranslateBatch_def sendRequest_def)
      have fb: "alone w lg (nextFallback w batch retryCount [] (texts batch) ?s2) ?fallback"
        using fallback_alone [of w lg batch retryCount "[]" "texts batch" ?s2]
        by (simp cong: prod.case_cong sum.case_cong)
      show ?thesis
      proof (cases "server w (length (sent s)) ?req")
        case (Inl e)
        have "resume w lg (Task batch retryCount (AwaitBulk (length (sent s)))) ?s1 =
                catchBlock batch retryCount e ?s2"
          using Inl by (simp add: resume_def)
        moreover have "(case translateBatch w (texts batch) lg s of
                     (Inl e, s1) \<Rightarrow> catchBlock batch retryCount e s1
                   | (Inr translatedTexts, s1) \<Rightarrow>
                       validateAndWrite w batch retryCount translatedTexts s1) =
                catchBlock batch retryCount e ?s2"
          using Inl some many False by (simp add: translateBatch_def chatCompletion_def)
        ultimately show ?thesis
          unfolding started by (simp add: one_turn)
      next
        case (Inr responseRaw)
        show ?thesis
        proof (cases "validArray w responseRaw (length (texts batch))")
          case (Some parsed)
          then have "JSON_parse w (cleanResponse responseRaw) = Some (JArray parsed)"
            and "length parsed = length (texts batch)"
            by (auto simp add: validArray_def split: option.splits json.splits if_splits)
          then have "resume w lg (Task batch retryCount (AwaitBulk (length (sent s)))) ?s1 =
                validateAndWrite w batch retryCount (map String_js parsed) ?s2"
            and "(case translateBatch w (texts batch) lg s of
                     (Inl e, s1) \<Rightarrow> catchBlock batch retryCount e s1
                   | (Inr translatedTexts, s1) \<Rightarrow>
                       validateAndWrite w batch retryCount translatedTexts s1) =
                validateAndWrite w batch retryCount (map String_js parsed) ?s2"
            using Inr some many False
            by (simp_all add: resume_def translateBatch_def chatCompletion_def)
          then show ?thesis
            unfolding started by (simp add: one_turn)
        next
          case None
          then have "resume w lg (Task batch retryCount (AwaitBulk (length (sent s)))) ?s1 =
                nextFallback w batch retryCount [] (texts batch) ?s2"
            using Inr
            by (auto simp add: resume_def validArray_def split: option.splits json.splits if_splits)
          moreover from None have "(case translateBatch w (texts batch) lg s of
                     (Inl e, s1) \<Rightarrow> catchBlock batch retryCount e s1
                   | (Inr translatedTexts, s1) \<Rightarrow>
                       validateAndWrite w batch retryCount translatedTexts s1) = ?fallback"
            using Inr some many False
            by (auto simp add: translateBatch_def chatCompletion_def validArray_def
                split: option.splits json.splits if_splits)
          ultimately show ?thesis
            unfolding started using fb by (simp add: turn_then)
        qed
      qed
    qed
  qed
qed

lemma loop_alone:
  "alone w lg (loopHead w lg batch retryCount s) (thrownOrDone (processLoop w lg batch retryCount s))"
proof (induction w lg batch retryCount s rule: processLoop.induct)
  case (1 w lg batch retryCount s)
  show ?case
  proof (cases "aborted w (clock s)")
    case True
    then show ?thesis
      by (simp add: loopHead_def processLoop.simps [of w lg batch retryCount s] thrownOrDone_def
          alone.here)
  next
    case running: False
    obtain r s1 where attempt: "tryBlock w lg batch s = (r, s1)"
      by (cases "tryBlock w lg batch s")
    have start: "loopHead w lg batch retryCount s = beginTranslateBatch w lg batch retryCount s"
      using running by (simp add: loopHead_def)
    have upto: "alone w lg (beginTranslateBatch w lg batch retryCount s)
        (case tryBlock w lg batch s of
           (None, s1) \<Rightarrow> (Fulfilled, s1)
         | (Some err, s1) \<Rightarrow> catchBlock batch retryCount err s1)"
      using translate_alone [of w lg batch retryCount s]
      by (simp only: attempt_after_translate)
    show ?thesis
    proof (cases r)
      case None
      with upto attempt running show ?thesis
        by (simp add: start processLoop.simps [of w lg batch retryCount s] thrownOrDone_def)
    next
      case (Some err)
      show ?thesis
      proof (cases "isAbort err \<or> Suc retryCount > maxRetries")
        case True
        with upto attempt running Some show ?thesis
          by (auto simp add: start processLoop.simps [of w lg batch retryCount s] thrownOrDone_def
              catchBlock_def split: prod.splits option.splits)
      next
        case False
        then have noAbort: "\<not> isAbort err" and more: "\<not> Suc retryCount > maxRetries" by auto
        have again: "processLoop w lg batch retryCount s =
                     processLoop w lg batch (Suc retryCount) (backoff s1)"
          using running attempt Some noAbort more
          by (simp add: processLoop.simps [of w lg batch retryCount s])
        have sleeping: "alone w lg (beginTranslateBatch w lg batch retryCount s)
            (Continues (Task batch (Suc retryCount) AwaitBackoff), s1)"
          using upto attempt Some noAbort more by (simp add: catchBlock_def)
        have wake: "resume w lg (Task batch (Suc retryCount) AwaitBackoff) s1 =
            loopHead w lg batch (Suc retryCount) (backoff s1)"
          by (simp add: resume_def backoff_def)
        have rest: "alone w lg (loopHead w lg batch (Suc retryCount) (backoff s1))
            (thrownOrDone (processLoop w lg batch (Suc retryCount) (backoff s1)))"
          using "1.IH" [OF running attempt [symmetric] _ noAbort more] Some by simp
        from turn_then [OF wake rest]
        have "alone w lg (Continues (Task batch (Suc retryCount) AwaitBackoff), s1)
            (thrownOrDone (processLoop w lg batch (Suc retryCount) (backoff s1)))" .
        from alone_trans [OF sleeping this] show ?thesis
          by (simp add: start again)
      qed
    qed
  qed
qed


lemma lone_task_is_processBatch:
  "alone w lg (enterProcessBatch w lg batch s) (thrownOrDone (processBatch w lg batch s))"
proof (cases "aborted w (clock s)")
  case True
  then show ?thesis
    by (simp add: enterProcessBatch_def processBatch_def thrownOrDone_def alone.here)
next
  case False
  then show ?thesis
    using loop_alone [of w lg batch 0 s]
    by (simp add: enterProcessBatch_def processBatch_def)
qed

section \<open>Properties: a signal aborted before the start\<close>

lemma taskTurn_idle: "activeTasks x = [] \<Longrightarrow> taskTurn w lg p x = x"
  by (simp add: taskTurn_def)

lemma returned_stays:
  "stage x = HasReturned \<Longrightarrow> activeTasks x = [] \<Longrightarrow> foldl (react w limit lg) x evs = x"
proof (induction evs)
  case Nil
  show ?case by simp
next
  case (Cons ev evs)
  from Cons.prems have "react w limit lg x ev = x"
    by (cases ev) (simp_all add: react_def mainTurn_def taskTurn_idle)
  with Cons show ?case by simp
qed

lemma joining_returns:
  assumes "stage x = AwaitAll" and "activeTasks x = []"
  shows "foldl (react w limit lg) x evs =
           (if 1 \<le> count_list evs Main then x\<lparr>stage := HasReturned\<rparr> else x)"
  using assms
proof (induction evs)
  case Nil
  show ?case by simp
next
  case (Cons ev evs)
  show ?case
  proof (cases ev)
    case Main
    from Cons.prems have "react w limit lg x Main = x\<lparr>stage := HasReturned\<rparr>"
      by (simp add: react_def mainTurn_def)
    moreover from Cons.prems
    have "foldl (react w limit lg) (x\<lparr>stage := HasReturned\<rparr>) evs = x\<lparr>stage := HasReturned\<rparr>"
      by (simp add: returned_stays)
    ultimately show ?thesis using Main by simp
  next
    case (Resume p)
    from Cons.prems have "react w limit lg x (Resume p) = x"
      by (simp add: react_def taskTurn_idle)
    with Cons Resume show ?thesis by simp
  qed
qed

lemma aborted_start_returns:
  assumes "stage x = ForHead" and "activeTasks x = []" and "aborted w (clock (shared x))"
  shows "foldl (react w limit lg) x evs =
           (if 2 \<le> count_list evs Main then x\<lparr>stage := HasReturned\<rparr>
            else if 1 \<le> count_list evs Main then x\<lparr>stage := AwaitAll\<rparr> else x)"
  using assms
proof (induction evs)
  case Nil
  show ?case by simp
next
  case (Cons ev evs)
  show ?case
  proof (cases ev)
    case Main
    from Cons.prems have first: "react w limit lg x Main = x\<lparr>stage := AwaitAll\<rparr>"
      by (simp add: react_def mainTurn_def split: list.splits)
    from Cons.prems
    have "foldl (react w limit lg) (x\<lparr>stage := AwaitAll\<rparr>) evs =
            (if 1 \<le> count_list evs Main then x\<lparr>stage := AwaitAll, stage := HasReturned\<rparr>
             else x\<lparr>stage := AwaitAll\<rparr>)"
      by (simp add: joining_returns)
    with first Main show ?thesis by simp
  next
    case (Resume p)
    from Cons.prems have "react w limit lg x (Resume p) = x"
      by (simp add: react_def taskTurn_idle)
    with Cons Resume show ?thesis by simp
  qed
qed

text \<open>
  Claim C4, as amended.  If the signal is aborted when \<open>translateTextByParagraph\<close> starts,
  then in every run, whatever the limits and the order of the turns, no request is sent,
  no callback is made, the container stays as it was allocated, and the function returns
  it, without throwing, at its second turn: one entry per paragraph, each with an empty
  translation.
\<close>

theorem aborted_before_start:
  assumes "aborted w 0"
  shows "snd (translateTextByParagraph w config ps forced events) = initialRun ps \<and>
         sent (initialRun ps) = [] \<and> notified (initialRun ps) = [] \<and>
         fst (translateTextByParagraph w config ps forced events) =
           (if 2 \<le> count_list events Main
            then Some (Inr (map (\<lambda>p. \<lparr>original = p, translated = []\<rparr>) ps))
            else None)"
proof -
  let ?x = "startExecution config ps"
  have "stage ?x = ForHead" "activeTasks ?x = []" "aborted w (clock (shared ?x))"
    using assms by (simp_all add: startExecution_def initialRun_def)
  from aborted_start_returns [OF this]
  have "foldl (react w (concurrencyLimit config) (detectTargetLang ps forced)) ?x events =
           (if 2 \<le> count_list events Main then ?x\<lparr>stage := HasReturned\<rparr>
            else if 1 \<le> count_list events Main then ?x\<lparr>stage := AwaitAll\<rparr> else ?x)" .
  then show ?thesis
    by (simp add: translateTextByParagraph_def Let_def settled_def startExecution_def
        initialRun_def)
qed

theorem aborted_before_start_witness:
  "aborted \<lparr>server = (\<lambda>k req. Inr (js ''ok'')), aborted = (\<lambda>t. True), JSON_parse = (\<lambda>s. None)\<rparr> 0 \<and>
   translateTextByParagraph
     \<lparr>server = (\<lambda>k req. Inr (js ''ok'')), aborted = (\<lambda>t. True), JSON_parse = (\<lambda>s. None)\<rparr>
     \<lparr>concurrency = Some 2, maxTextLengthPerRequest = None, maxParagraphsPerRequest = Some 2\<rparr>
     [js ''a'', js ''b''] None [Main, Resume 0, Main]
   = (Some (Inr [\<lparr>original = js ''a'', translated = []\<rparr>, \<lparr>original = js ''b'', translated = []\<rparr>]),
      \<lparr>results = [\<lparr>original = js ''a'', translated = []\<rparr>, \<lparr>original = js ''b'', translated = []\<rparr>],
        sent = [], clock = 0, notified = []\<rparr>)"
proof -
  let ?w = "\<lparr>server = (\<lambda>k req. Inr (js ''ok'')), aborted = (\<lambda>t. True), JSON_parse = (\<lambda>s. None)\<rparr>"
  have set: "aborted ?w 0" by simp
  from aborted_before_start [OF set, of
      "\<lparr>concurrency = Some 2, maxTextLengthPerRequest = None, maxParagraphsPerRequest = Some 2\<rparr>"
      "[js ''a'', js ''b'']" None "[Main, Resume 0, Main]"]
  show ?thesis by (simp add: initialRun_def prod_eq_iff)
qed

text \<open>
  The claim as it stands fails: with the signal aborted from the start the function does
  not throw; it returns an ordinary result container, as a completed run does.
\<close>

theorem aborted_before_start_returns_container:
  "fst (translateTextByParagraph
          \<lparr>server = (\<lambda>k req. Inr (js ''ok'')), aborted = (\<lambda>t. True), JSON_parse = (\<lambda>s. None)\<rparr>
          \<lparr>concurrency = None, maxTextLengthPerRequest = None, maxParagraphsPerRequest = None\<rparr>
          [js ''Hello''] None [Main, Main])
   = Some (Inr [\<lparr>original = js ''Hello'', translated = []\<rparr>])"
proof -
  let ?w = "\<lparr>server = (\<lambda>k req. Inr (js ''ok'')), aborted = (\<lambda>t. True), JSON_parse = (\<lambda>s. None)\<rparr>"
  let ?c = "\<lparr>concurrency = None, maxTextLengthPerRequest = None, maxParagraphsPerRequest = None\<rparr>"
  let ?x = "startExecution ?c [js ''Hello'']"
  have "stage ?x = ForHead" "activeTasks ?x = []" "aborted ?w (clock (shared ?x))"
    by (simp_all add: startExecution_def)
  from aborted_start_returns [OF this,
      of "concurrencyLimit ?c" "detectTargetLang [js ''Hello''] None" "[Main, Main]"]
  have "foldl (react ?w (concurrencyLimit ?c) (detectTargetLang [js ''Hello''] None)) ?x [Main, Main]
          = ?x\<lparr>stage := HasReturned\<rparr>"
    by simp
  then show ?thesis
    by (simp add: translateTextByParagraph_def Let_def settled_def startExecution_def
        initialRun_def)
qed

text \<open>
  With a negative limit, paragraphs to translate and the signal not aborted, the function
  never settles.
\<close>

lemma negative_limit_waits:
  assumes "limit < 0" and "\<not> aborted w (clock (shared x))" and "activeTasks x = []"
    and "waitingBatches x \<noteq> []" and "stage x = ForHead \<or> stage x = WhileWindow"
  shows "stage (foldl (react w limit lg) x evs) = ForHead \<or>
         stage (foldl (react w limit lg) x evs) = WhileWindow"
  using assms
proof (induction evs arbitrary: x)
  case Nil
  then show ?case by simp
next
  case (Cons ev evs)
  have "react w limit lg x ev = x \<or> react w limit lg x ev = x\<lparr>stage := WhileWindow\<rparr>"
    using Cons.prems
    by (cases ev) (auto simp add: react_def mainTurn_def taskTurn_idle split: list.splits)
  then show ?case
  proof
    assume "react w limit lg x ev = x"
    with Cons show ?thesis by simp
  next
    assume moved: "react w limit lg x ev = x\<lparr>stage := WhileWindow\<rparr>"
    have "stage (foldl (react w limit lg) (x\<lparr>stage := WhileWindow\<rparr>) evs) = ForHead \<or>
          stage (foldl (react w limit lg) (x\<lparr>stage := WhileWindow\<rparr>) evs) = WhileWindow"
      using Cons.prems by (intro Cons.IH) simp_all
    with moved show ?thesis by simp
  qed
qed

lemma negative_limit_never_settles:
  assumes "concurrencyLimit config < 0" and "\<not> aborted w 0"
    and "ps \<noteq> []" and "1 \<le> maxBatchSize config"
  shows "fst (translateTextByParagraph w config ps forced events) = None"
proof -
  let ?x = "startExecution config ps"
  from createBatches_planned [OF assms(4), of "maxTextLen config" ps] assms(3)
  have "createBatches (maxBatchSize config) (maxTextLen config) ps \<noteq> []"
    by (cases ps) auto
  then have "waitingBatches ?x \<noteq> []" by (simp add: startExecution_def)
  moreover have "\<not> aborted w (clock (shared ?x))" "activeTasks ?x = []"
      "stage ?x = ForHead \<or> stage ?x = WhileWindow"
    using assms(2) by (simp_all add: startExecution_def initialRun_def)
  ultimately
  have "stage (foldl (react w (concurrencyLimit config) (detectTargetLang ps forced)) ?x events) = ForHead \<or>
        stage (foldl (react w (concurrencyLimit config) (detectTargetLang ps forced)) ?x events) = WhileWindow"
    using negative_limit_waits [OF assms(1)] by blast
  then show ?thesis
    by (auto simp add: translateTextByParagraph_def Let_def settled_def)
qed

section \<open>Properties: the concurrency window\<close>

lemma step_window:
  assumes "step limit x y" and "int (length (activePromises x)) \<le> max limit 0"
  shows "int (length (activePromises y)) \<le> max limit 0"
  using assms
proof (cases rule: step.cases)
  case (fulfil p)
  have "length (remove1 (p, Pending) (activePromises x)) \<le> length (activePromises x)"
    by (simp add: length_remove1)
  with assms(2) fulfil show ?thesis by simp
qed auto

lemma reachable_window:
  "reachable limit batches a x \<Longrightarrow> int (length (activePromises x)) \<le> max limit 0"
proof (induction rule: reachable.induct)
  case initial
  show ?case by (simp add: initialExecutor_def)
next
  case (further x y)
  then show ?case by (simp add: step_window)
qed

lemma inFlight_le: "length (inFlight x) \<le> length (activePromises x)"
  by (simp add: inFlight_def)

lemma admission_below_limit:
  assumes "step limit x y" and "created y \<noteq> created x"
  shows "int (length (activePromises x)) < limit \<and>
         activePromises y = activePromises x @ [(created x, Pending)]"
  using assms by (cases rule: step.cases) auto

text \<open>
  Claim C5.  With a concurrency limit that is not negative, at every point of a run and
  under every interleaving of the main function, the tasks and the signal, the number of
  tasks in flight is at most the limit, and so is the length of \<open>activePromises\<close>.  A step
  that creates a task is taken only from a state whose \<open>activePromises\<close> holds fewer than
  \<open>concurrency\<close> promises, and a pending task can always finish by removing itself from
  \<open>activePromises\<close>.
\<close>

theorem window_bound:
  assumes "reachable (concurrencyLimit config) batches a x"
    and "0 \<le> concurrencyLimit config"
  shows "int (length (inFlight x)) \<le> concurrencyLimit config \<and>
         int (length (activePromises x)) \<le> concurrencyLimit config \<and>
         (\<forall>y. step (concurrencyLimit config) x y \<longrightarrow> created y \<noteq> created x \<longrightarrow>
              int (length (activePromises x)) < concurrencyLimit config) \<and>
         (\<forall>p. (p, Pending) \<in> set (activePromises x) \<longrightarrow>
              step (concurrencyLimit config) x
                (x\<lparr>activePromises := remove1 (p, Pending) (activePromises x)\<rparr>))"
proof -
  from reachable_window [OF assms(1)] assms(2)
  have active: "int (length (activePromises x)) \<le> concurrencyLimit config" by simp
  with inFlight_le [of x]
  have flying: "int (length (inFlight x)) \<le> concurrencyLimit config" by linarith
  from active flying show ?thesis
    by (auto dest: admission_below_limit intro: step.fulfil)
qed

theorem window_bound_witness:
  "reachable 2 [emptyBatch, emptyBatch, emptyBatch] False
     \<lparr>queue = [emptyBatch], activePromises = [(0, Pending), (1, Pending)], created = 2,
       signalAborted = False, position = Looping\<rparr> \<and>
   length (inFlight \<lparr>queue = [emptyBatch], activePromises = [(0, Pending), (1, Pending)], created = 2,
       signalAborted = False, position = Looping\<rparr>) = 2 \<and>
   int (length (inFlight \<lparr>queue = [emptyBatch], activePromises = [(0, Pending), (1, Pending)], created = 2,
       signalAborted = False, position = Looping\<rparr>))
     \<le> concurrencyLimit \<lparr>concurrency = Some 2, maxTextLengthPerRequest = None, maxParagraphsPerRequest = None\<rparr>"
proof -
  let ?c = "\<lparr>concurrency = Some 2, maxTextLengthPerRequest = None, maxParagraphsPerRequest = None\<rparr>"
  let ?bs = "[emptyBatch, emptyBatch, emptyBatch]"
  let ?x0 = "initialExecutor ?bs False"
  let ?x1 = "\<lparr>queue = [emptyBatch, emptyBatch], activePromises = [(0, Pending)], created = 1,
       signalAborted = False, position = Looping\<rparr>"
  let ?x2 = "\<lparr>queue = [emptyBatch], activePromises = [(0, Pending), (1, Pending)], created = 2,
       signalAborted = False, position = Looping\<rparr>"
  have limit: "concurrencyLimit ?c = 2" by (simp add: concurrencyLimit_def orDefault_def)
  have r0: "reachable 2 ?bs False ?x0" by (rule reachable.initial)
  have e1: "step 2 ?x0 (?x0\<lparr>position := Waiting\<rparr>)"
    by (rule step.enter [of ?x0 emptyBatch "[emptyBatch, emptyBatch]"])
       (simp_all add: initialExecutor_def)
  have s1: "step 2 (?x0\<lparr>position := Waiting\<rparr>) ?x1"
    using step.admit [of "?x0\<lparr>position := Waiting\<rparr>" emptyBatch "[emptyBatch, emptyBatch]" 2]
    by (simp add: initialExecutor_def)
  have e2: "step 2 ?x1 (?x1\<lparr>position := Waiting\<rparr>)"
    by (rule step.enter [of ?x1 emptyBatch "[emptyBatch]"]) simp_all
  have s2: "step 2 (?x1\<lparr>position := Waiting\<rparr>) ?x2"
    using step.admit [of "?x1\<lparr>position := Waiting\<rparr>" emptyBatch "[emptyBatch]" 2]
    by (simp add: numeral_2_eq_2)
  have r2: "reachable 2 ?bs False ?x2"
    using reachable.further [OF reachable.further [OF reachable.further
            [OF reachable.further [OF r0 e1] s1] e2] s2] .
  have flying: "length (inFlight ?x2) = 2" by (simp add: inFlight_def)
  from r2 have r2': "reachable (concurrencyLimit ?c) ?bs False ?x2" by (simp only: limit)
  have nonneg: "0 \<le> concurrencyLimit ?c" by (simp add: limit)
  from window_bound [OF r2' nonneg] r2 flying show ?thesis by simp
qed

section \<open>Properties: the realignment matcher\<close>

lemma similarity_self:
  assumes "stripTags t \<noteq> []"
  shows "calculateTextSimilarity t t = 1"
proof -
  let ?len = "min (min (length (stripTags t)) (length (stripTags t))) 100"
  from assms have pos: "?len \<noteq> 0" by simp
  have "filter (\<lambda>i. stripTags t ! i = stripTags t ! i) [0 ..< ?len] = [0 ..< ?len]"
    by simp
  then have "length (filter (\<lambda>i. stripTags t ! i = stripTags t ! i) [0 ..< ?len]) = ?len"
    by simp
  with pos show ?thesis
    by (simp add: calculateTextSimilarity_def Let_def)
qed

lemma similarity_le_one: "calculateTextSimilarity a b \<le> 1"
proof -
  let ?a = "stripTags a" and ?b = "stripTags b"
  let ?len = "min (min (length ?a) (length ?b)) 100"
  show ?thesis
  proof (cases "?len = 0")
    case True
    then show ?thesis by (simp add: calculateTextSimilarity_def Let_def)
  next
    case False
    have "length (filter (\<lambda>i. ?a ! i = ?b ! i) [0 ..< ?len]) \<le> length [0 ..< ?len]"
      by (rule length_filter_le)
    then have "length (filter (\<lambda>i. ?a ! i = ?b ! i) [0 ..< ?len]) \<le> ?len" by simp
    then have "(of_nat (length (filter (\<lambda>i. ?a ! i = ?b ! i) [0 ..< ?len])) :: rat) \<le> of_nat ?len"
      by (simp only: of_nat_le_iff)
    moreover from False have "(0 :: rat) < of_nat ?len" by simp
    ultimately have "(of_nat (length (filter (\<lambda>i. ?a ! i = ?b ! i) [0 ..< ?len])) :: rat) / of_nat ?len \<le> 1"
      by (simp only: divide_le_eq_1_pos)
    with False show ?thesis by (simp add: calculateTextSimilarity_def Let_def)
  qed
qed

lemma foldl_skips_used:
  "\<forall>j \<in> set idxs. j \<in> used \<Longrightarrow> foldl (considerIndex txts used orig) best idxs = best"
  by (induction idxs arbitrary: best) (simp_all add: considerIndex_def)

lemma foldl_keeps_top:
  "snd best = 1 \<Longrightarrow> foldl (considerIndex txts used orig) best idxs = best"
proof (induction idxs arbitrary: best)
  case Nil
  show ?case by simp
next
  case (Cons j idxs)
  have "\<not> calculateTextSimilarity (txts ! j) orig > 1"
    using similarity_le_one [of "txts ! j" orig] by simp
  with Cons.prems have "considerIndex txts used orig best j = best"
    by (simp add: considerIndex_def Let_def)
  with Cons show ?case by simp
qed

lemma bestMatch_first_free:
  assumes "i < length txts" and "i \<notin> used" and "\<forall>j < i. j \<in> used"
    and "calculateTextSimilarity (txts ! i) orig = 1"
  shows "bestMatch txts used orig = (int i, 1)"
proof -
  have split: "[0 ..< length txts] = [0 ..< i] @ i # [Suc i ..< length txts]"
    using assms(1) by (metis less_imp_le_nat upt_add_eq_append upt_conv_Cons zero_le le_add_diff_inverse add_0)
  have before: "foldl (considerIndex txts used orig) (-1, 0) [0 ..< i] = (-1, 0)"
    using assms(3) by (simp add: foldl_skips_used)
  have here: "considerIndex txts used orig (-1, 0) i = (int i, 1)"
    using assms(2,4) by (simp add: considerIndex_def)
  have after: "foldl (considerIndex txts used orig) (int i, 1) [Suc i ..< length txts] = (int i, 1)"
    by (simp add: foldl_keeps_top)
  show ?thesis
    unfolding bestMatch_def split
    by (simp only: foldl_append foldl_Cons before here after)
qed

lemma matchLoop_identity:
  assumes same: "map original aiTranslation = txts"
    and nonempty: "\<forall>t \<in> set txts. stripTags t \<noteq> []"
  shows "k + m = length txts \<Longrightarrow>
         matchLoop txts (drop k aiTranslation) {0 ..< k} =
           (map (\<lambda>i. (i, 1, translated (aiTranslation ! i))) [k ..< length txts],
            {0 ..< length txts})"
proof (induction m arbitrary: k)
  case 0
  then have "k = length txts" by simp
  moreover from same have "length aiTranslation = length txts" by (metis length_map)
  ultimately show ?case by simp
next
  case (Suc m)
  from same have len: "length aiTranslation = length txts" by (metis length_map)
  from Suc.prems have k: "k < length txts" by simp
  with len have cut: "drop k aiTranslation = aiTranslation ! k # drop (Suc k) aiTranslation"
    by (simp add: Cons_nth_drop_Suc)
  from same k len have orig: "original (aiTranslation ! k) = txts ! k"
    by (metis nth_map)
  from nonempty k have "stripTags (txts ! k) \<noteq> []" by simp
  then have one: "calculateTextSimilarity (txts ! k) (original (aiTranslation ! k)) = 1"
    by (simp add: orig similarity_self)
  have best: "bestMatch txts {0 ..< k} (original (aiTranslation ! k)) = (int k, 1)"
    by (rule bestMatch_first_free [OF k _ _ one]) simp_all
  have used: "insert k {0 ..< k} = {0 ..< Suc k}"
    by (simp add: atLeast0_lessThan_Suc)
  from Suc.prems have "Suc k + m = length txts" by simp
  from Suc.IH [OF this]
  have rest: "matchLoop txts (drop (Suc k) aiTranslation) {0 ..< Suc k} =
           (map (\<lambda>i. (i, 1, translated (aiTranslation ! i))) [Suc k ..< length txts],
            {0 ..< length txts})" .
  have "[k ..< length txts] = k # [Suc k ..< length txts]"
    using k by (simp add: upt_conv_Cons)
  with best rest used show ?case
    by (simp add: cut)
qed

text \<open>
  Claim C9, as amended.  For every list of cached pairs whose originals all keep some text
  when their markup is stripped, matching the list of the originals against the pairs
  assigns pair \<open>i\<close> to fragment \<open>i\<close> with the score 1, for every \<open>i\<close> and in this order, and
  uses every fragment; \<open>injectCachedTranslations\<close> then inserts translation \<open>i\<close> at
  fragment \<open>i\<close> and adds no global block.
\<close>

theorem identical_fragments_realign:
  assumes "map original aiTranslation = txts"
    and "\<forall>t \<in> set txts. stripTags t \<noteq> []"
  shows "matchLoop txts aiTranslation {} =
           (map (\<lambda>i. (i, 1, translated (aiTranslation ! i))) [0 ..< length txts],
            {0 ..< length txts}) \<and>
         (\<forall>i < length txts. calculateTextSimilarity (txts ! i) (original (aiTranslation ! i)) = 1) \<and>
         (txts \<noteq> [] \<longrightarrow>
            injectCachedTranslations aiTranslation txts =
              map (\<lambda>i. InsertTranslation i (translated (aiTranslation ! i))) [0 ..< length txts]
              @ [SetTranslationVisibility True])"
proof -
  from matchLoop_identity [OF assms, of 0 "length txts"]
  have loop: "matchLoop txts aiTranslation {} =
           (map (\<lambda>i. (i, 1, translated (aiTranslation ! i))) [0 ..< length txts],
            {0 ..< length txts})"
    by simp
  have scores:
    "\<forall>i < length txts. calculateTextSimilarity (txts ! i) (original (aiTranslation ! i)) = 1"
  proof (intro allI impI)
    fix i assume i: "i < length txts"
    with assms(1) have "original (aiTranslation ! i) = txts ! i"
      by (metis length_map nth_map)
    moreover from assms(2) i have "stripTags (txts ! i) \<noteq> []" by simp
    ultimately show "calculateTextSimilarity (txts ! i) (original (aiTranslation ! i)) = 1"
      by (simp add: similarity_self)
  qed
  have scripts: "txts \<noteq> [] \<longrightarrow>
            injectCachedTranslations aiTranslation txts =
              map (\<lambda>i. InsertTranslation i (translated (aiTranslation ! i))) [0 ..< length txts]
              @ [SetTranslationVisibility True]"
  proof
    assume some: "txts \<noteq> []"
    with assms(1) have "aiTranslation \<noteq> []" by auto
    with some loop show "injectCachedTranslations aiTranslation txts =
              map (\<lambda>i. InsertTranslation i (translated (aiTranslation ! i))) [0 ..< length txts]
              @ [SetTranslationVisibility True]"
      by (simp add: injectCachedTranslations_def comp_def)
  qed
  from loop scores scripts show ?thesis by (intro conjI)
qed

theorem identical_fragments_realign_witness:
  "matchLoop [js ''<p>Hello</p>'', js ''Hello'']
     [\<lparr>original = js ''<p>Hello</p>'', translated = js ''A''\<rparr>,
      \<lparr>original = js ''Hello'', translated = js ''B''\<rparr>] {}
   = ([(0, 1, js ''A''), (1, 1, js ''B'')], {0, 1}) \<and>
   injectCachedTranslations
     [\<lparr>original = js ''<p>Hello</p>'', translated = js ''A''\<rparr>,
      \<lparr>original = js ''Hello'', translated = js ''B''\<rparr>]
     [js ''<p>Hello</p>'', js ''Hello'']
   = [InsertTranslation 0 (js ''A''), InsertTranslation 1 (js ''B''), SetTranslationVisibility True]"
proof -
  let ?txts = "[js ''<p>Hello</p>'', js ''Hello'']"
  let ?pairs = "[\<lparr>original = js ''<p>Hello</p>'', translated = js ''A''\<rparr>,
      \<lparr>original = js ''Hello'', translated = js ''B''\<rparr>]"
  have same: "map original ?pairs = ?txts" by simp
  have some: "\<forall>t \<in> set ?txts. stripTags t \<noteq> []" by (simp add: js_def)
  have range: "{0 ..< length ?txts} = {0, 1}" by auto
  from identical_fragments_realign [OF same some] range
  show ?thesis by (simp add: upt_conv_Cons)
qed

text \<open>
  The claim as it stands fails on a fragment that is markup only: its similarity to itself
  is 0, the pair finds no fragment, and the translation goes into the global block.
\<close>

theorem markup_only_fragment_unmatched:
  "calculateTextSimilarity (js ''<br>'') (js ''<br>'') = 0 \<and>
   injectCachedTranslations [\<lparr>original = js ''<br>'', translated = js ''x''\<rparr>] [js ''<br>'']
   = [AppendGlobalTranslation (js ''x''), SetTranslationVisibility True]"
proof -
  have bare: "stripTags (js ''<br>'') = []" by (simp add: js_def)
  then have zero: "calculateTextSimilarity (js ''<br>'') (js ''<br>'') = 0"
    by (simp add: calculateTextSimilarity_def)
  then have "bestMatch [js ''<br>''] {} (js ''<br>'') = (-1, 0)"
    by (simp add: bestMatch_def considerIndex_def)
  then have "matchLoop [js ''<br>''] [\<lparr>original = js ''<br>'', translated = js ''x''\<rparr>] {} = ([], {})"
    by simp
  then have "injectCachedTranslations [\<lparr>original = js ''<br>'', translated = js ''x''\<rparr>] [js ''<br>'']
   = [AppendGlobalTranslation (js ''x''), SetTranslationVisibility True]"
    by (simp add: injectCachedTranslations_def globalBlock_def js_def)
  with zero show ?thesis by simp
qed

end
